theory Spec2Isabelle
  imports Main "HOL-Library.Sublist" "HOL-Library.Word" "HOL-Library.Log_Nat"
    "HOL-Library.Multiset"
begin

section \<open>Data model (types/cash)\<close>

text \<open>
  Text is modelled as \<^typ>\<open>string\<close>; its elements stand for the code units of the
  JavaScript string, those from U+0000 to U+00FF. A JavaScript \<open>number\<close> is a binary64
  value: a finite value is kept as the rational it denotes (the two zeros are
  identified), next to the two infinities and NaN. The arithmetic below rounds every
  result to a binary64 value.
\<close>

datatype number = Finite rat | PosInf | NegInf | NaN

datatype CashEntryType = IN | OUT

text \<open>The payment methods \<open>CASH\<close>, \<open>PIX\<close> and \<open>CARD\<close>.\<close>

datatype CashPaymentMethod = PayCASH | PayPIX | PayCARD

record CashEntry =
  entry_id :: string
  entry_type :: CashEntryType
  entry_amount :: number
  entry_description :: string
  entry_category :: "string option"
  entry_paymentMethod :: "CashPaymentMethod option"
  entry_createdAt :: string

record CreateCashEntryDto =
  dto_type :: CashEntryType
  dto_paymentMethod :: CashPaymentMethod
  dto_amount :: number
  dto_description :: string
  dto_category :: "string option"
  dto_entryDate :: "string option"

text \<open>
  Modelled from the spec: the declaration of \<open>ReceiptScanResult\<close> is not among the
  sources. The spec gives the recognition result as
  \<open>{ type?, paymentMethod?, amount?, description?, category?, entryDate?, confidence }\<close>
  with every field independently optional; the code reads \<open>confidence\<close> through
  \<open>??\<close> as well, so it is optional here too. \<open>None\<close> is an absent (undefined) field.
\<close>

record ReceiptScanResult =
  scan_type :: "CashEntryType option"
  scan_paymentMethod :: "CashPaymentMethod option"
  scan_amount :: "number option"
  scan_description :: "string option"
  scan_category :: "string option"
  scan_entryDate :: "string option"
  scan_confidence :: "number option"

section \<open>Draft merge (CashPage, handleScanReceiptFile, the \<open>setForm\<close> updater)\<close>

text \<open>\<open>a ?? b\<close> on a required field of the draft: the left operand when it is defined.\<close>

definition nullish :: "'a option \<Rightarrow> 'a \<Rightarrow> 'a" where
  "nullish a b = (case a of Some v \<Rightarrow> v | None \<Rightarrow> b)"

text \<open>\<open>a ?? b\<close> where the draft's field is optional itself.\<close>

definition nullish_opt :: "'a option \<Rightarrow> 'a option \<Rightarrow> 'a option" where
  "nullish_opt a b = (case a of Some v \<Rightarrow> Some v | None \<Rightarrow> b)"

definition merge_form :: "CreateCashEntryDto \<Rightarrow> ReceiptScanResult \<Rightarrow> CreateCashEntryDto" where
  "merge_form prev parsed =
     prev\<lparr> dto_type := nullish (scan_type parsed) (dto_type prev),
           dto_paymentMethod := nullish (scan_paymentMethod parsed) (dto_paymentMethod prev),
           dto_amount := nullish (scan_amount parsed) (dto_amount prev),
           dto_description := nullish (scan_description parsed) (dto_description prev),
           dto_category := nullish_opt (scan_category parsed) (dto_category prev),
           dto_entryDate := nullish_opt (scan_entryDate parsed) (dto_entryDate prev) \<rparr>"

text \<open>The recognition result \<open>{}\<close> (with whatever confidence): no field supplied.\<close>

definition empty_result :: "number option \<Rightarrow> ReceiptScanResult" where
  "empty_result c =
     \<lparr> scan_type = None, scan_paymentMethod = None, scan_amount = None,
       scan_description = None, scan_category = None, scan_entryDate = None,
       scan_confidence = c \<rparr>"

section \<open>Delimited-text export (ReportsPage)\<close>

definition replaceAll_quote :: "string \<Rightarrow> string" where
  "replaceAll_quote text = concat (map (\<lambda>c. if c = CHR 0x22 then [c, c] else [c]) text)"

text \<open>The character class \<open>[",;\n]\<close> of the test in \<open>escapeCsv\<close>.\<close>

definition csv_special :: "char \<Rightarrow> bool" where
  "csv_special c = (c = CHR 0x22 \<or> c = CHR 0x2C \<or> c = CHR 0x3B \<or> c = CHR 0x0A)"

text \<open>
  \<open>escapeCsv\<close>: the argument is a text or undefined (\<open>None\<close>), as at every call of
  \<open>handleDownloadCsv\<close>; \<open>String(value ?? '')\<close> is then the text itself or the empty text.
\<close>

definition escapeCsv :: "string option \<Rightarrow> string" where
  "escapeCsv v =
     (let text = (case v of None \<Rightarrow> [] | Some s \<Rightarrow> s)
      in if \<not> list_ex csv_special text then text
         else [CHR 0x22] @ replaceAll_quote text @ [CHR 0x22])"

section \<open>JavaScript numbers: binary64 arithmetic\<close>

text \<open>The exponent \<open>k\<close> with \<open>2^k \<le> |x| < 2^(k+1)\<close>, for \<open>x \<noteq> 0\<close>.\<close>

definition binade :: "rat \<Rightarrow> int" where
  "binade x =
     (let (p, q) = quotient_of \<bar>x\<bar>; d = bitlen p - bitlen q
      in if 2 powi d \<le> \<bar>x\<bar> then d else d - 1)"

definition round_ties_even :: "rat \<Rightarrow> int" where
  "round_ties_even x =
     (let f = \<lfloor>x\<rfloor>; d = x - of_int f
      in if d < 1 / 2 then f else if 1 / 2 < d then f + 1 else if even f then f else f + 1)"

text \<open>
  Rounding of an exact result to binary64, to nearest with ties to even: 53 significant
  bits, the least exponent of a subnormal is \<open>-1074\<close>, and a rounded magnitude of
  \<open>2^1024\<close> or more is an infinity.
\<close>

definition to_double :: "rat \<Rightarrow> number" where
  "to_double x =
     (if x = 0 then Finite 0
      else let e = max (binade x - 52) (- 1074);
               r = of_int (round_ties_even (x / 2 powi e)) * 2 powi e
           in if 2 powi 1024 \<le> \<bar>r\<bar> then (if 0 < x then PosInf else NegInf) else Finite r)"

fun js_add :: "number \<Rightarrow> number \<Rightarrow> number" where
  "js_add NaN _ = NaN"
| "js_add _ NaN = NaN"
| "js_add PosInf NegInf = NaN"
| "js_add NegInf PosInf = NaN"
| "js_add PosInf _ = PosInf"
| "js_add _ PosInf = PosInf"
| "js_add NegInf _ = NegInf"
| "js_add _ NegInf = NegInf"
| "js_add (Finite a) (Finite b) = to_double (a + b)"

fun js_sub :: "number \<Rightarrow> number \<Rightarrow> number" where
  "js_sub NaN _ = NaN"
| "js_sub _ NaN = NaN"
| "js_sub PosInf PosInf = NaN"
| "js_sub NegInf NegInf = NaN"
| "js_sub PosInf _ = PosInf"
| "js_sub NegInf _ = NegInf"
| "js_sub _ PosInf = NegInf"
| "js_sub _ NegInf = PosInf"
| "js_sub (Finite a) (Finite b) = to_double (a - b)"

fun js_mul :: "number \<Rightarrow> number \<Rightarrow> number" where
  "js_mul NaN _ = NaN"
| "js_mul _ NaN = NaN"
| "js_mul PosInf PosInf = PosInf"
| "js_mul PosInf NegInf = NegInf"
| "js_mul NegInf PosInf = NegInf"
| "js_mul NegInf NegInf = PosInf"
| "js_mul PosInf (Finite b) = (if b = 0 then NaN else if 0 < b then PosInf else NegInf)"
| "js_mul NegInf (Finite b) = (if b = 0 then NaN else if 0 < b then NegInf else PosInf)"
| "js_mul (Finite a) PosInf = (if a = 0 then NaN else if 0 < a then PosInf else NegInf)"
| "js_mul (Finite a) NegInf = (if a = 0 then NaN else if 0 < a then NegInf else PosInf)"
| "js_mul (Finite a) (Finite b) = to_double (a * b)"

text \<open>Division; a zero divisor is the positive zero, the only zero an unsigned width gives.\<close>

fun js_div :: "number \<Rightarrow> number \<Rightarrow> number" where
  "js_div NaN _ = NaN"
| "js_div _ NaN = NaN"
| "js_div PosInf PosInf = NaN"
| "js_div PosInf NegInf = NaN"
| "js_div NegInf PosInf = NaN"
| "js_div NegInf NegInf = NaN"
| "js_div PosInf (Finite b) = (if 0 \<le> b then PosInf else NegInf)"
| "js_div NegInf (Finite b) = (if 0 \<le> b then NegInf else PosInf)"
| "js_div (Finite a) PosInf = Finite 0"
| "js_div (Finite a) NegInf = Finite 0"
| "js_div (Finite a) (Finite b) =
     (if b = 0 then (if a = 0 then NaN else if 0 < a then PosInf else NegInf)
      else to_double (a / b))"

text \<open>\<open>Math.min\<close>, \<open>Math.max\<close> of two arguments and \<open>Math.round\<close> (ties towards +\<infinity>).\<close>

fun js_min :: "number \<Rightarrow> number \<Rightarrow> number" where
  "js_min NaN _ = NaN"
| "js_min _ NaN = NaN"
| "js_min NegInf _ = NegInf"
| "js_min _ NegInf = NegInf"
| "js_min PosInf b = b"
| "js_min a PosInf = a"
| "js_min (Finite a) (Finite b) = Finite (min a b)"

fun js_max :: "number \<Rightarrow> number \<Rightarrow> number" where
  "js_max NaN _ = NaN"
| "js_max _ NaN = NaN"
| "js_max PosInf _ = PosInf"
| "js_max _ PosInf = PosInf"
| "js_max NegInf b = b"
| "js_max a NegInf = a"
| "js_max (Finite a) (Finite b) = Finite (max a b)"

fun js_round :: "number \<Rightarrow> number" where
  "js_round (Finite a) = Finite (of_int \<lfloor>a + 1 / 2\<rfloor>)"
| "js_round x = x"

section \<open>Image resizing (CashPage, fileToOptimizedDataUrl)\<close>

text \<open>\<open>image.width\<close> and \<open>image.height\<close> are unsigned long attributes of the DOM.\<close>

definition number_of_word :: "32 word \<Rightarrow> number" where
  "number_of_word w = Finite (of_nat (unat w))"

definition maxDimension :: number where
  "maxDimension = Finite 1600"

definition optimized_scale :: "32 word \<Rightarrow> 32 word \<Rightarrow> number" where
  "optimized_scale iw ih =
     js_min (Finite 1) (js_div maxDimension (js_max (number_of_word iw) (number_of_word ih)))"

text \<open>The canvas size \<open>(width, height)\<close> computed for an image of size \<open>iw\<close> by \<open>ih\<close>.\<close>

definition optimized_dimensions :: "32 word \<Rightarrow> 32 word \<Rightarrow> number \<times> number" where
  "optimized_dimensions iw ih =
     (let scale = optimized_scale iw ih;
          width = js_max (Finite 1) (js_round (js_mul (number_of_word iw) scale));
          height = js_max (Finite 1) (js_round (js_mul (number_of_word ih) scale))
      in (width, height))"

section \<open>Text helpers\<close>

definition startsWith :: "string \<Rightarrow> string \<Rightarrow> bool" where
  "startsWith s p = (take (length p) s = p)"

text \<open>\<open>toLowerCase\<close> on the ASCII letters; every other code unit is kept.\<close>

definition lower_char :: "char \<Rightarrow> char" where
  "lower_char c =
     (let n = (of_char c :: nat) in if 65 \<le> n \<and> n \<le> 90 then char_of (n + 32) else c)"

definition toLowerCase :: "string \<Rightarrow> string" where
  "toLowerCase s = map lower_char s"

text \<open>
  White space and line terminators removed by \<open>String.prototype.trim\<close>, among the code
  units of the model: tab, line feed, vertical tab, form feed, carriage return, space and
  no-break space (U+00A0).
\<close>

definition is_space :: "char \<Rightarrow> bool" where
  "is_space c = (let n = (of_char c :: nat) in (9 \<le> n \<and> n \<le> 13) \<or> n = 32 \<or> n = 160)"

definition trim :: "string \<Rightarrow> string" where
  "trim s = rev (dropWhile is_space (rev (dropWhile is_space s)))"

text \<open>\<open>Array.prototype.join\<close> on an array of texts.\<close>

fun join :: "string \<Rightarrow> string list \<Rightarrow> string" where
  "join sep [] = []"
| "join sep [x] = x"
| "join sep (x # y # ys) = x @ sep @ join sep (y # ys)"

section \<open>File validation (CashPage, isLikelyImageFile)\<close>

record File =
  file_type :: string
  file_name :: string

text \<open>
  The test \<open>/\.(png|jpe?g|webp|bmp|gif|heic|heif)$/i\<close>: the text ends with a dot and one
  of the alternatives, compared without regard to the case of ASCII letters.
\<close>

definition regex_alternatives :: "string list" where
  "regex_alternatives =
     [''png'', ''jpg'', ''jpeg'', ''webp'', ''bmp'', ''gif'', ''heic'', ''heif'']"

definition ends_with_ignoring_case :: "string \<Rightarrow> string \<Rightarrow> bool" where
  "ends_with_ignoring_case s p =
     (length p \<le> length s \<and>
      map lower_char (drop (length s - length p) s) = map lower_char p)"

definition image_name_test :: "string \<Rightarrow> bool" where
  "image_name_test s =
     list_ex (\<lambda>alt. ends_with_ignoring_case s (CHR ''.'' # alt)) regex_alternatives"

definition isLikelyImageFile :: "File \<Rightarrow> bool" where
  "isLikelyImageFile f =
     (if startsWith (file_type f) ''image/'' then True
      else let lowerName = toLowerCase (file_name f) in image_name_test lowerName)"

section \<open>Errors of the HTTP client\<close>

text \<open>
  What the handlers read from a rejected call: whether it is an axios error, its
  \<open>response?.status\<close> and the kind of \<open>response?.data?.message\<close>.
\<close>

datatype api_message = MessageArray "string list" | MessageString string | MessageOther

datatype js_error = AxiosError "nat option" api_message | OtherError string

fun is_unauthorized :: "js_error \<Rightarrow> bool" where
  "is_unauthorized (AxiosError status _) = (status = Some 401)"
| "is_unauthorized (OtherError _) = False"

fun extractApiMessage :: "js_error \<Rightarrow> string option" where
  "extractApiMessage (OtherError _) = None"
| "extractApiMessage (AxiosError _ (MessageArray ms)) = Some (join '', '' ms)"
| "extractApiMessage (AxiosError _ (MessageString m)) = (if trim m \<noteq> [] then Some m else None)"
| "extractApiMessage (AxiosError _ MessageOther) = None"

section \<open>Session store (auth)\<close>

type_synonym storage = "string \<rightharpoonup> string"

definition TOKEN_KEY :: string where
  "TOKEN_KEY = ''credentials-front.access-token''"

definition USER_KEY :: string where
  "USER_KEY = ''credentials-front.user''"

definition getToken :: "storage \<Rightarrow> string option" where
  "getToken ls = ls TOKEN_KEY"

text \<open>\<open>Boolean(getToken())\<close>: a stored, non-empty token.\<close>

definition isAuthenticated :: "storage \<Rightarrow> bool" where
  "isAuthenticated ls = (case getToken ls of None \<Rightarrow> False | Some t \<Rightarrow> t \<noteq> [])"

definition logout :: "storage \<Rightarrow> storage" where
  "logout ls = (ls(TOKEN_KEY := None))(USER_KEY := None)"

text \<open>
  \<open>getCurrentUser\<close>, with \<open>JSON.parse\<close> as the parameter \<open>parse\<close>: \<open>None\<close> where it
  throws, \<open>Some v\<close> where it returns, with \<open>v = None\<close> for the value null. The result
  is the value returned (\<open>None\<close> for null) and the storage afterwards.
\<close>

definition getCurrentUser ::
  "(string \<Rightarrow> 'u option option) \<Rightarrow> storage \<Rightarrow> 'u option \<times> storage" where
  "getCurrentUser parse ls =
     (case ls USER_KEY of
        None \<Rightarrow> (None, ls)
      | Some raw \<Rightarrow>
          if raw = [] then (None, ls)
          else (case parse raw of
                  Some user \<Rightarrow> (user, ls)
                | None \<Rightarrow> (None, ls(USER_KEY := None))))"

section \<open>The pages' state and their calls\<close>

record DailyCashSummary =
  sum_date :: string
  sum_totalIn :: number
  sum_totalOut :: number
  sum_balance :: number
  sum_countIn :: number
  sum_countOut :: number
  sum_totalEntries :: number

text \<open>A filter of type \<open>"ALL" | T\<close>.\<close>

datatype 'a filter_choice = FilterALL | Only 'a

fun type_text :: "CashEntryType \<Rightarrow> string" where
  "type_text IN = ''IN''"
| "type_text OUT = ''OUT''"

fun payment_text :: "CashPaymentMethod \<Rightarrow> string" where
  "payment_text PayCASH = ''CASH''"
| "payment_text PayPIX = ''PIX''"
| "payment_text PayCARD = ''CARD''"

text \<open>
  The calls a handler makes, in order: the resize of a file, and the requests with their
  query parameters or body fields.
\<close>

datatype call =
    OptimizeImage File
  | HttpGet string "(string \<times> string) list"
  | HttpPost string "(string \<times> string) list"

text \<open>The canvas element that the resize creates, sizes and draws the image on.\<close>

record canvas =
  canvas_width :: number
  canvas_height :: number

text \<open>
  What the browser and the remote service answer: reading a file (\<open>None\<close>: the reader
  fails), decoding it to an image of some size, whether the canvas gives a 2d context,
  the encoding of the drawn canvas, the outcome of each request, and the order in which
  two rejections arrive.
\<close>

record environment =
  env_readFile :: "File \<Rightarrow> string option"
  env_loadImage :: "string \<Rightarrow> (32 word \<times> 32 word) option"
  env_hasContext :: bool
  env_toDataURL :: "string \<Rightarrow> canvas \<Rightarrow> string"
  env_scanReceipt :: "string \<Rightarrow> js_error + ReceiptScanResult"
  env_listEntries :: "(string \<times> string) list \<Rightarrow> js_error + CashEntry list"
  env_dailySummary :: "string \<Rightarrow> js_error + DailyCashSummary"
  env_summaryRejectsFirst :: bool

text \<open>
  The state of the cash page. \<open>cp_ocrInfo\<close> is \<open>None\<close> for the empty text and
  \<open>Some p\<close> for the message built around the confidence percentage \<open>p\<close>.
\<close>

record CashPage =
  cp_entries :: "CashEntry list"
  cp_summary :: "DailyCashSummary option"
  cp_selectedDate :: string
  cp_typeFilter :: "CashEntryType filter_choice"
  cp_paymentFilter :: "CashPaymentMethod filter_choice"
  cp_loadingDashboard :: bool
  cp_scanningReceipt :: bool
  cp_ocrInfo :: "number option"
  cp_error :: string
  cp_form :: CreateCashEntryDto
  cp_receiptInput :: string
  cp_localStorage :: storage
  cp_navigations :: "string list"
  cp_calls :: "call list"

definition handleUnauthorized :: "CashPage \<Rightarrow> CashPage" where
  "handleUnauthorized st =
     st\<lparr> cp_localStorage := logout (cp_localStorage st),
         cp_navigations := cp_navigations st @ [''/login''] \<rparr>"

section \<open>Dashboard load (CashPage, loadDashboard)\<close>

definition dashboard_params :: "CashPage \<Rightarrow> (string \<times> string) list" where
  "dashboard_params st =
     [(''date'', cp_selectedDate st)]
     @ (case cp_typeFilter st of FilterALL \<Rightarrow> [] | Only t \<Rightarrow> [(''type'', type_text t)])
     @ (case cp_paymentFilter st of FilterALL \<Rightarrow> [] | Only m \<Rightarrow> [(''paymentMethod'', payment_text m)])"

definition dashboard_error :: string where
  "dashboard_error =
     ''Nao foi possivel carregar os dados do caixa. Verifique se o backend esta rodando.''"

text \<open>The \<open>catch\<close> block of \<open>loadDashboard\<close>.\<close>

definition dashboard_catch :: "js_error \<Rightarrow> CashPage \<Rightarrow> CashPage" where
  "dashboard_catch err st =
     (if is_unauthorized err then handleUnauthorized st
      else st\<lparr> cp_error := dashboard_error \<rparr>)"

text \<open>
  Both requests are issued, and \<open>Promise.all\<close> gives both results or the error of the
  request rejected first: when both are rejected, \<open>env_summaryRejectsFirst\<close> tells
  which rejection arrives first.
\<close>

definition loadDashboard :: "environment \<Rightarrow> CashPage \<Rightarrow> CashPage" where
  "loadDashboard env st =
     (let st1 = st\<lparr> cp_loadingDashboard := True, cp_error := [] \<rparr>;
          params = dashboard_params st1;
          st2 = st1\<lparr> cp_calls := cp_calls st1 @
                  [HttpGet ''/cash-entries'' params,
                   HttpGet ''/cash-summary/daily'' [(''date'', cp_selectedDate st1)]] \<rparr>;
          st3 = (case (env_listEntries env params,
                       env_dailySummary env (cp_selectedDate st1)) of
                   (Inr entriesRes, Inr summaryRes) \<Rightarrow>
                     st2\<lparr> cp_entries := entriesRes, cp_summary := Some summaryRes \<rparr>
                 | (Inl err, Inr summaryRes) \<Rightarrow> dashboard_catch err st2
                 | (Inr entriesRes, Inl err) \<Rightarrow> dashboard_catch err st2
                 | (Inl listErr, Inl summaryErr) \<Rightarrow>
                     dashboard_catch
                       (if env_summaryRejectsFirst env then summaryErr else listErr) st2)
      in st3\<lparr> cp_loadingDashboard := False \<rparr>)"

section \<open>Receipt digitization (CashPage, handleScanReceiptFile)\<close>

definition fileToOptimizedDataUrl :: "environment \<Rightarrow> File \<Rightarrow> js_error + string" where
  "fileToOptimizedDataUrl env f =
     (case env_readFile env f of
        None \<Rightarrow> Inl (OtherError ''Falha ao ler imagem.'')
      | Some original \<Rightarrow>
          (case env_loadImage env original of
             None \<Rightarrow> Inl (OtherError ''Falha ao carregar imagem.'')
           | Some (iw, ih) \<Rightarrow>
               (let (width, height) = optimized_dimensions iw ih;
                    canvas = \<lparr> canvas_width = width, canvas_height = height \<rparr>
                in if \<not> env_hasContext env then Inl (OtherError ''Falha ao preparar imagem.'')
                   else Inr (env_toDataURL env original canvas))))"

definition invalid_file_error :: string where
  "invalid_file_error = ''Arquivo invalido. Envie uma imagem.''"

definition too_large_error :: string where
  "too_large_error =
     ''Imagem muito grande. Tire a foto mais de perto ou com menor resolucao.''"

definition scan_failed_error :: string where
  "scan_failed_error =
     ''Falha ao ler comprovante. Tente novamente com uma foto mais nitida.''"

definition scan_request :: "string \<Rightarrow> call" where
  "scan_request base64Image =
     HttpPost ''/cash-entries/scan-receipt''
       [(''base64Image'', base64Image), (''language'', ''por'')]"

text \<open>The \<open>catch\<close> block of the handler.\<close>

definition scan_catch :: "js_error \<Rightarrow> CashPage \<Rightarrow> CashPage" where
  "scan_catch err st =
     st\<lparr> cp_error := (case extractApiMessage err of Some m \<Rightarrow> m | None \<Rightarrow> scan_failed_error) \<rparr>"

text \<open>The statements after a successful recognition call.\<close>

definition scan_apply :: "ReceiptScanResult \<Rightarrow> CashPage \<Rightarrow> CashPage" where
  "scan_apply parsed st =
     st\<lparr> cp_form := merge_form (cp_form st) parsed,
         cp_selectedDate :=
           (case scan_entryDate parsed of
              None \<Rightarrow> cp_selectedDate st
            | Some d \<Rightarrow> if d \<noteq> [] then d else cp_selectedDate st),
         cp_ocrInfo :=
           Some (js_round (js_mul (nullish (scan_confidence parsed) (Finite 0)) (Finite 100))) \<rparr>"

definition handleScanReceiptFile :: "environment \<Rightarrow> File \<Rightarrow> CashPage \<Rightarrow> CashPage" where
  "handleScanReceiptFile env f st =
     (let st1 = st\<lparr> cp_error := [], cp_ocrInfo := None, cp_scanningReceipt := True \<rparr>;
          st2 =
            (if \<not> isLikelyImageFile f then st1\<lparr> cp_error := invalid_file_error \<rparr>
             else
               (let st3 = st1\<lparr> cp_calls := cp_calls st1 @ [OptimizeImage f] \<rparr>
                in case fileToOptimizedDataUrl env f of
                     Inl err \<Rightarrow> scan_catch err st3
                   | Inr base64Image \<Rightarrow>
                       if \<not> startsWith base64Image ''data:image/''
                       then st3\<lparr> cp_error := invalid_file_error \<rparr>
                       else if length base64Image > 9500000
                       then st3\<lparr> cp_error := too_large_error \<rparr>
                       else
                         (let st4 = st3\<lparr> cp_calls := cp_calls st3 @ [scan_request base64Image] \<rparr>
                          in case env_scanReceipt env base64Image of
                               Inl err \<Rightarrow> scan_catch err st4
                             | Inr parsed \<Rightarrow> scan_apply parsed st4)))
      in st2\<lparr> cp_scanningReceipt := False, cp_receiptInput := [] \<rparr>)"

section \<open>Report load, totals and export (ReportsPage)\<close>

record ReportsPage =
  rp_items :: "CashEntry list"
  rp_loading :: bool
  rp_error :: string
  rp_typeFilter :: "CashEntryType filter_choice"
  rp_dateFrom :: string
  rp_dateTo :: string
  rp_category :: string
  rp_description :: string
  rp_minAmount :: string
  rp_maxAmount :: string
  rp_localStorage :: storage
  rp_navigations :: "string list"
  rp_calls :: "call list"

definition report_params :: "ReportsPage \<Rightarrow> (string \<times> string) list" where
  "report_params st =
     (case rp_typeFilter st of FilterALL \<Rightarrow> [] | Only t \<Rightarrow> [(''type'', type_text t)])
     @ (if rp_dateFrom st \<noteq> [] then [(''dateFrom'', rp_dateFrom st)] else [])
     @ (if rp_dateTo st \<noteq> [] then [(''dateTo'', rp_dateTo st)] else [])
     @ (if trim (rp_category st) \<noteq> [] then [(''category'', trim (rp_category st))] else [])
     @ (if trim (rp_description st) \<noteq> []
        then [(''description'', trim (rp_description st))] else [])
     @ (if rp_minAmount st \<noteq> [] then [(''minAmount'', rp_minAmount st)] else [])
     @ (if rp_maxAmount st \<noteq> [] then [(''maxAmount'', rp_maxAmount st)] else [])"

definition report_handleUnauthorized :: "ReportsPage \<Rightarrow> ReportsPage" where
  "report_handleUnauthorized st =
     st\<lparr> rp_localStorage := logout (rp_localStorage st),
         rp_navigations := rp_navigations st @ [''/login''] \<rparr>"

definition loadReport :: "environment \<Rightarrow> ReportsPage \<Rightarrow> ReportsPage" where
  "loadReport env st =
     (let st1 = st\<lparr> rp_loading := True, rp_error := [] \<rparr>;
          params = report_params st1;
          st2 = st1\<lparr> rp_calls := rp_calls st1 @ [HttpGet ''/cash-entries'' params] \<rparr>;
          st3 = (case env_listEntries env params of
                   Inr res \<Rightarrow> st2\<lparr> rp_items := res \<rparr>
                 | Inl err \<Rightarrow>
                     if is_unauthorized err then report_handleUnauthorized st2
                     else st2\<lparr> rp_error :=
                            (case err of
                               AxiosError _ (MessageArray ms) \<Rightarrow> join '', '' ms
                             | _ \<Rightarrow> ''Falha ao carregar relatorio.'') \<rparr>)
      in st3\<lparr> rp_loading := False \<rparr>)"

record Totals =
  totalIn :: number
  totalOut :: number

text \<open>The callback and the call of \<open>items.reduce\<close>, and \<open>net\<close>.\<close>

definition totals_step :: "Totals \<Rightarrow> CashEntry \<Rightarrow> Totals" where
  "totals_step acc item =
     (if entry_type item = IN
      then acc\<lparr> totalIn := js_add (totalIn acc) (entry_amount item) \<rparr>
      else acc\<lparr> totalOut := js_add (totalOut acc) (entry_amount item) \<rparr>)"

definition totals :: "CashEntry list \<Rightarrow> Totals" where
  "totals items = foldl totals_step \<lparr> totalIn = Finite 0, totalOut = Finite 0 \<rparr> items"

definition net :: "CashEntry list \<Rightarrow> number" where
  "net items = js_sub (totalIn (totals items)) (totalOut (totals items))"

text \<open>
  \<open>formatDateTimeBR\<close>, with the date of the platform as the parameter \<open>toLocale\<close>
  (\<open>None\<close> for a text that is no date).
\<close>

definition formatDateTimeBR :: "(string \<Rightarrow> string option) \<Rightarrow> string \<Rightarrow> string" where
  "formatDateTimeBR toLocale v = (case toLocale v of None \<Rightarrow> v | Some t \<Rightarrow> t)"

text \<open>\<open>replace('.', ',')\<close>: the first dot only.\<close>

fun replace_dot :: "string \<Rightarrow> string" where
  "replace_dot [] = []"
| "replace_dot (c # cs) = (if c = CHR ''.'' then CHR '','' # cs else c # replace_dot cs)"

definition csv_header :: "string list" where
  "csv_header = [''Data/Hora'', ''Tipo'', ''Categoria'', ''Descricao'', ''Pagamento'', ''Valor'']"

text \<open>A row of the export; \<open>toFixed2\<close> stands for \<open>toFixed(2)\<close> of the platform.\<close>

definition csv_row ::
  "(string \<Rightarrow> string option) \<Rightarrow> (number \<Rightarrow> string) \<Rightarrow> CashEntry \<Rightarrow> string list" where
  "csv_row toLocale toFixed2 item =
     [formatDateTimeBR toLocale (entry_createdAt item),
      if entry_type item = IN then ''Entrada'' else ''Saida'',
      case entry_category item of None \<Rightarrow> [] | Some c \<Rightarrow> c,
      entry_description item,
      case entry_paymentMethod item of None \<Rightarrow> [] | Some m \<Rightarrow> payment_text m,
      replace_dot (toFixed2 (entry_amount item))]"

text \<open>A row of cells, escaped and joined, and the rows joined by line feeds.\<close>

definition csv_line :: "string list \<Rightarrow> string" where
  "csv_line row = join '';'' (map (\<lambda>cell. escapeCsv (Some cell)) row)"

definition csv_text :: "string list list \<Rightarrow> string" where
  "csv_text rows = join [CHR 0x0A] (map csv_line rows)"

text \<open>
  The text handed to the blob: the byte-order mark U+FEFF, a code unit outside the range
  of the model and hence kept apart, followed by the text of the rows. The blob holds the
  UTF-8 encoding of both; a reader decodes it, and for code units of the model (no
  surrogates among them) the decoded text is the text that was written.
\<close>

datatype document = WithByteOrderMark string | Plain string

text \<open>The content of the blob that \<open>handleDownloadCsv\<close> offers for download.\<close>

definition handleDownloadCsv ::
  "(string \<Rightarrow> string option) \<Rightarrow> (number \<Rightarrow> string) \<Rightarrow> CashEntry list \<Rightarrow> document" where
  "handleDownloadCsv toLocale toFixed2 items =
     WithByteOrderMark (csv_text (csv_header # map (csv_row toLocale toFixed2) items))"

section \<open>A standard reader of delimited text, as the spec describes it\<close>

text \<open>
  The reader the round trip is measured against follows the spec's words, not code of
  the repository: a standard CSV reader with \<open>;\<close> as the delimiter. Fields are
  separated by \<open>;\<close>; a record ends at a line feed, at a carriage return, or at a
  carriage return followed by a line feed, and at the end of the text; a field that
  starts with a double quote runs to the closing double quote, a doubled double quote
  inside it is one double quote, and delimiters and line ends inside it are data. A line
  end at the very end of the text opens no further record. An unclosed quoted field, text
  after a closing quote and a double quote inside an unquoted field are malformed
  (\<open>None\<close>).
\<close>

datatype reader_mode = RecordStart | FieldStart | InUnquoted | InQuoted | AfterQuote | AfterCR

fun csv_read ::
  "reader_mode \<Rightarrow> string \<Rightarrow> string list \<Rightarrow> string list list \<Rightarrow> string
     \<Rightarrow> string list list option" where
  "csv_read InQuoted cur row rows [] = None"
| "csv_read RecordStart cur row rows [] = Some rows"
| "csv_read AfterCR cur row rows [] = Some rows"
| "csv_read _ cur row rows [] = Some (rows @ [row @ [cur]])"
| "csv_read RecordStart cur row rows (c # cs) =
     (if c = CHR 0x22 then csv_read InQuoted [] [] rows cs
      else if c = CHR 0x3B then csv_read FieldStart [] [[]] rows cs
      else if c = CHR 0x0A then csv_read RecordStart [] [] (rows @ [[[]]]) cs
      else if c = CHR 0x0D then csv_read AfterCR [] [] (rows @ [[[]]]) cs
      else csv_read InUnquoted [c] [] rows cs)"
| "csv_read AfterCR cur row rows (c # cs) =
     (if c = CHR 0x0A then csv_read RecordStart [] [] rows cs
      else if c = CHR 0x22 then csv_read InQuoted [] [] rows cs
      else if c = CHR 0x3B then csv_read FieldStart [] [[]] rows cs
      else if c = CHR 0x0D then csv_read AfterCR [] [] (rows @ [[[]]]) cs
      else csv_read InUnquoted [c] [] rows cs)"
| "csv_read FieldStart cur row rows (c # cs) =
     (if c = CHR 0x22 then csv_read InQuoted [] row rows cs
      else if c = CHR 0x3B then csv_read FieldStart [] (row @ [[]]) rows cs
      else if c = CHR 0x0A then csv_read RecordStart [] [] (rows @ [row @ [[]]]) cs
      else if c = CHR 0x0D then csv_read AfterCR [] [] (rows @ [row @ [[]]]) cs
      else csv_read InUnquoted [c] row rows cs)"
| "csv_read InUnquoted cur row rows (c # cs) =
     (if c = CHR 0x3B then csv_read FieldStart [] (row @ [cur]) rows cs
      else if c = CHR 0x0A then csv_read RecordStart [] [] (rows @ [row @ [cur]]) cs
      else if c = CHR 0x0D then csv_read AfterCR [] [] (rows @ [row @ [cur]]) cs
      else if c = CHR 0x22 then None
      else csv_read InUnquoted (cur @ [c]) row rows cs)"
| "csv_read InQuoted cur row rows (c # cs) =
     (if c = CHR 0x22 then csv_read AfterQuote cur row rows cs
      else csv_read InQuoted (cur @ [c]) row rows cs)"
| "csv_read AfterQuote cur row rows (c # cs) =
     (if c = CHR 0x22 then csv_read InQuoted (cur @ [c]) row rows cs
      else if c = CHR 0x3B then csv_read FieldStart [] (row @ [cur]) rows cs
      else if c = CHR 0x0A then csv_read RecordStart [] [] (rows @ [row @ [cur]]) cs
      else if c = CHR 0x0D then csv_read AfterCR [] [] (rows @ [row @ [cur]]) cs
      else None)"

text \<open>
  What the reader does once a field \<open>f\<close> is complete, by what follows it: the end of
  the text, a semicolon or a line feed.
\<close>

definition after_field ::
  "string \<Rightarrow> string list \<Rightarrow> string list list \<Rightarrow> string \<Rightarrow> string list list option" where
  "after_field f row rows rest =
     (case rest of
        [] \<Rightarrow> Some (rows @ [row @ [f]])
      | c # cs \<Rightarrow>
          if c = CHR 0x3B then csv_read FieldStart [] (row @ [f]) rows cs
          else csv_read RecordStart [] [] (rows @ [row @ [f]]) cs)"

text \<open>
  A field value that the standard reader gives back: any carriage return in it is inside
  quotes, because the value also holds a character that makes \<open>escapeCsv\<close> quote it.
\<close>

definition carriage_return_quoted :: "string \<Rightarrow> bool" where
  "carriage_return_quoted cell = (CHR 0x0D \<in> set cell \<longrightarrow> list_ex csv_special cell)"

text \<open>Reading a document: a leading byte-order mark is skipped.\<close>

fun read_csv_document :: "document \<Rightarrow> string list list option" where
  "read_csv_document (WithByteOrderMark t) = csv_read RecordStart [] [] [] t"
| "read_csv_document (Plain t) = csv_read RecordStart [] [] [] t"

section \<open>\<open>JSON.parse\<close>: which texts it accepts\<close>

text \<open>
  \<open>JSON.parse\<close> belongs to the platform, and \<open>getCurrentUser\<close> above takes it as a
  parameter. For stored values given concretely, this section decides by the JSON grammar
  whether \<open>JSON.parse\<close> accepts a text or throws.
\<close>

definition json_ws :: "char \<Rightarrow> bool" where
  "json_ws c = (c = CHR 0x20 \<or> c = CHR 0x09 \<or> c = CHR 0x0A \<or> c = CHR 0x0D)"

definition is_digit :: "char \<Rightarrow> bool" where
  "is_digit c = (let n = (of_char c :: nat) in 48 \<le> n \<and> n \<le> 57)"

definition is_hex :: "char \<Rightarrow> bool" where
  "is_hex c =
     (let n = (of_char c :: nat)
      in (48 \<le> n \<and> n \<le> 57) \<or> (65 \<le> n \<and> n \<le> 70) \<or> (97 \<le> n \<and> n \<le> 102))"

text \<open>Each of these gives the text left after the part it reads, or \<open>None\<close>.\<close>

definition json_exponent :: "string \<Rightarrow> string option" where
  "json_exponent s =
     (case s of
        [] \<Rightarrow> Some s
      | c # r \<Rightarrow>
          if c = CHR ''e'' \<or> c = CHR ''E''
          then (let t = (case r of [] \<Rightarrow> r
                         | g # u \<Rightarrow> if g = CHR ''+'' \<or> g = CHR ''-'' then u else r)
                in case t of [] \<Rightarrow> None
                   | d # _ \<Rightarrow> if is_digit d then Some (dropWhile is_digit t) else None)
          else Some s)"

definition json_fraction :: "string \<Rightarrow> string option" where
  "json_fraction s =
     (case s of
        [] \<Rightarrow> Some s
      | c # r \<Rightarrow>
          if c = CHR ''.''
          then (case r of [] \<Rightarrow> None
                | d # _ \<Rightarrow> if is_digit d then json_exponent (dropWhile is_digit r) else None)
          else json_exponent s)"

definition json_number :: "string \<Rightarrow> string option" where
  "json_number s =
     (let t = (case s of [] \<Rightarrow> s | c # r \<Rightarrow> if c = CHR ''-'' then r else s)
      in case t of
           [] \<Rightarrow> None
         | d # r \<Rightarrow>
             if d = CHR ''0'' then json_fraction r
             else if is_digit d then json_fraction (dropWhile is_digit r)
             else None)"

definition json_escapes :: string where
  "json_escapes = [CHR 0x22, CHR 0x5C, CHR ''/'', CHR ''b'', CHR ''f'', CHR ''n'', CHR ''r'', CHR ''t'']"

text \<open>The text of a string after its opening quote.\<close>

fun json_string_rest :: "string \<Rightarrow> string option" where
  "json_string_rest [] = None"
| "json_string_rest (c # r) =
     (if c = CHR 0x22 then Some r
      else if c = CHR 0x5C
      then (case r of
              [] \<Rightarrow> None
            | e # t \<Rightarrow>
                if e \<in> set json_escapes then json_string_rest t
                else if e = CHR ''u'' \<and> 4 \<le> length t \<and> list_all is_hex (take 4 t)
                then json_string_rest (drop 4 t)
                else None)
      else if (of_char c :: nat) < 32 then None
      else json_string_rest r)"

text \<open>A value, the rest of an array and the rest of an object; the first argument bounds
  the number of nested and following values.\<close>

fun json_value :: "nat \<Rightarrow> string \<Rightarrow> string option"
  and json_elements :: "nat \<Rightarrow> string \<Rightarrow> string option"
  and json_members :: "nat \<Rightarrow> string \<Rightarrow> string option" where
  "json_value 0 s = None"
| "json_value (Suc n) s =
     (case dropWhile json_ws s of
        [] \<Rightarrow> None
      | c # r \<Rightarrow>
          if c = CHR ''[''
          then (case dropWhile json_ws r of
                  [] \<Rightarrow> None
                | d # t \<Rightarrow> if d = CHR '']'' then Some t else json_elements n r)
          else if c = CHR ''{''
          then (case dropWhile json_ws r of
                  [] \<Rightarrow> None
                | d # t \<Rightarrow> if d = CHR ''}'' then Some t else json_members n r)
          else if c = CHR 0x22 then json_string_rest r
          else if startsWith (c # r) ''true'' then Some (drop 4 (c # r))
          else if startsWith (c # r) ''false'' then Some (drop 5 (c # r))
          else if startsWith (c # r) ''null'' then Some (drop 4 (c # r))
          else json_number (c # r))"
| "json_elements 0 s = None"
| "json_elements (Suc n) s =
     (case json_value n s of
        None \<Rightarrow> None
      | Some r \<Rightarrow>
          (case dropWhile json_ws r of
             [] \<Rightarrow> None
           | c # t \<Rightarrow>
               if c = CHR '','' then json_elements n t
               else if c = CHR '']'' then Some t
               else None))"
| "json_members 0 s = None"
| "json_members (Suc n) s =
     (case dropWhile json_ws s of
        [] \<Rightarrow> None
      | q # r \<Rightarrow>
          if q = CHR 0x22
          then (case json_string_rest r of
                  None \<Rightarrow> None
                | Some r1 \<Rightarrow>
                    (case dropWhile json_ws r1 of
                       [] \<Rightarrow> None
                     | col # r2 \<Rightarrow>
                         if col = CHR '':''
                         then (case json_value n r2 of
                                 None \<Rightarrow> None
                               | Some r3 \<Rightarrow>
                                   (case dropWhile json_ws r3 of
                                      [] \<Rightarrow> None
                                    | c # t \<Rightarrow>
                                        if c = CHR '','' then json_members n t
                                        else if c = CHR ''}'' then Some t
                                        else None))
                         else None))
          else None)"

definition JSON_valid :: "string \<Rightarrow> bool" where
  "JSON_valid s =
     (case json_value (Suc (2 * length s)) s of
        None \<Rightarrow> False
      | Some r \<Rightarrow> dropWhile json_ws r = [])"

text \<open>
  The value of a JSON text: null for the text \<open>null\<close> (white space around it apart), and
  otherwise a value kept as the text that denotes it.
\<close>

datatype json = Json string

definition JSON_parse :: "string \<Rightarrow> json option option" where
  "JSON_parse raw =
     (if \<not> JSON_valid raw then None
      else if rev (dropWhile json_ws (rev (dropWhile json_ws raw))) = ''null'' then Some None
      else Some (Some (Json raw)))"

section \<open>Example inputs\<close>

definition example_draft :: CreateCashEntryDto where
  "example_draft =
     \<lparr> dto_type = IN, dto_paymentMethod = PayPIX, dto_amount = Finite 0,
       dto_description = ''almoco'', dto_category = Some [],
       dto_entryDate = Some ''2024-03-01'' \<rparr>"

definition example_result :: ReceiptScanResult where
  "example_result =
     (empty_result (Some (to_double (73 / 100))))\<lparr> scan_amount := Some (Finite (241 / 2)) \<rparr>"

definition example_photo :: File where
  "example_photo = \<lparr> file_type = [], file_name = ''IMG_0001.HEIC'' \<rparr>"

definition example_pdf :: File where
  "example_pdf = \<lparr> file_type = ''application/pdf'', file_name = ''nota.pdf'' \<rparr>"

definition unauthorized :: js_error where
  "unauthorized = AxiosError (Some 401) (MessageString ''Unauthorized'')"

definition example_environment :: "string \<Rightarrow> js_error + ReceiptScanResult \<Rightarrow> environment" where
  "example_environment payload outcome =
     \<lparr> env_readFile = (\<lambda>f. Some ''data:image/heic;base64,AAAA''),
       env_loadImage = (\<lambda>original. Some (3000, 2000)),
       env_hasContext = True,
       env_toDataURL = (\<lambda>original canvas. payload),
       env_scanReceipt = (\<lambda>base64Image. outcome),
       env_listEntries = (\<lambda>params. Inl unauthorized),
       env_dailySummary = (\<lambda>date. Inl unauthorized),
       env_summaryRejectsFirst = False \<rparr>"

definition example_page :: CashPage where
  "example_page =
     \<lparr> cp_entries = [], cp_summary = None, cp_selectedDate = ''2024-03-01'',
       cp_typeFilter = FilterALL, cp_paymentFilter = FilterALL,
       cp_loadingDashboard = False, cp_scanningReceipt = False, cp_ocrInfo = None,
       cp_error = [], cp_form = example_draft, cp_receiptInput = ''IMG_0001.HEIC'',
       cp_localStorage = [TOKEN_KEY \<mapsto> ''token'', USER_KEY \<mapsto> ''{}''],
       cp_navigations = [], cp_calls = [] \<rparr>"

definition payload_of_length :: "nat \<Rightarrow> string" where
  "payload_of_length n = ''data:image/'' @ replicate (n - 11) (CHR ''A'')"

definition example_report :: ReportsPage where
  "example_report =
     \<lparr> rp_items = [], rp_loading = False, rp_error = [], rp_typeFilter = Only OUT,
       rp_dateFrom = ''2024-03-01'', rp_dateTo = [],
       rp_category = [CHR 0x20, CHR 0xA0, CHR 0x09],
       rp_description = '' fornecedor '', rp_minAmount = [], rp_maxAmount = ''100'',
       rp_localStorage = [TOKEN_KEY \<mapsto> ''token''], rp_navigations = [], rp_calls = [] \<rparr>"

definition amount_entry :: "string \<Rightarrow> CashEntryType \<Rightarrow> number \<Rightarrow> CashEntry" where
  "amount_entry i t a =
     \<lparr> entry_id = i, entry_type = t, entry_amount = a, entry_description = ''fornecedor'',
       entry_category = None, entry_paymentMethod = Some PayCASH,
       entry_createdAt = ''2024-03-01T12:00:00.000Z'' \<rparr>"

definition example_items :: "CashEntry list" where
  "example_items =
     [amount_entry ''a'' IN (to_double (1 / 10)), amount_entry ''b'' IN (to_double (1 / 5)),
      amount_entry ''c'' IN (to_double (3 / 10))]"

definition whole_items :: "CashEntry list" where
  "whole_items =
     [amount_entry ''a'' IN (Finite 120), amount_entry ''b'' OUT (Finite 50),
      amount_entry ''c'' IN (Finite 30)]"

definition whole_amount :: "CashEntry \<Rightarrow> nat" where
  "whole_amount item = (case entry_amount item of Finite q \<Rightarrow> nat \<lfloor>q\<rfloor> | _ \<Rightarrow> 0)"

text \<open>
  What the platform gives for the entries of the export examples: the pt-BR date and
  time of their timestamp, and \<open>toFixed(2)\<close> of their amount 45.5.
\<close>

definition example_toLocale :: "string \<Rightarrow> string option" where
  "example_toLocale v = Some ''01/03/2024, 09:00:00''"

definition example_toFixed2 :: "number \<Rightarrow> string" where
  "example_toFixed2 a = ''45.50''"

definition carriage_return_entry :: CashEntry where
  "carriage_return_entry =
     \<lparr> entry_id = ''d'', entry_type = OUT, entry_amount = Finite (91 / 2),
       entry_description = [CHR ''a'', CHR 0x0D, CHR ''b''], entry_category = None,
       entry_paymentMethod = Some PayCASH, entry_createdAt = ''2024-03-01T12:00:00.000Z'' \<rparr>"

definition quoted_entry :: CashEntry where
  "quoted_entry =
     \<lparr> entry_id = ''e'', entry_type = IN, entry_amount = Finite (91 / 2),
       entry_description = [CHR 0x22, CHR ''x'', CHR 0x22, CHR 0x0D, CHR 0x0A, CHR ''y''],
       entry_category = Some ''a;b'', entry_paymentMethod = None,
       entry_createdAt = ''2024-03-01T12:00:00.000Z'' \<rparr>"

text \<open>
  An encoder that tells the canvas sizes of the examples apart, and an environment that
  decodes the file to an image of the given size and encodes with it.
\<close>

definition size_encoder :: "string \<Rightarrow> canvas \<Rightarrow> string" where
  "size_encoder original cv =
     (if cv = \<lparr> canvas_width = Finite 1600, canvas_height = Finite 1067 \<rparr>
      then ''data:image/jpeg;base64,1600x1067''
      else if cv = \<lparr> canvas_width = Finite 800, canvas_height = Finite 600 \<rparr>
      then ''data:image/jpeg;base64,800x600''
      else ''data:image/jpeg;base64,'')"

definition encoding_environment :: "32 word \<times> 32 word \<Rightarrow> environment" where
  "encoding_environment dims =
     (example_environment [] (Inl unauthorized))
       \<lparr> env_loadImage := (\<lambda>original. Some dims), env_toDataURL := size_encoder \<rparr>"

section \<open>Delimited-text export: the quoting rule\<close>

lemma list_ex_csv_special:
  "list_ex csv_special text \<longleftrightarrow> set text \<inter> {CHR 0x22, CHR 0x2C, CHR 0x3B, CHR 0x0A} \<noteq> {}"
  by (auto simp: list_ex_iff csv_special_def)

text \<open>
  C3, as stated, fails: the text \<open>45,90\<close> holds no double quote, no semicolon and no line
  feed, and \<open>escapeCsv\<close> quotes it all the same, because the character class of its test
  holds the comma too. Every formatted amount of the export has this shape.
\<close>

theorem escapeCsv_comma_counterexample:
  "set ''45,90'' \<inter> {CHR 0x22, CHR 0x3B, CHR 0x0A} = {} \<and>
   escapeCsv (Some ''45,90'') = [CHR 0x22] @ ''45,90'' @ [CHR 0x22] \<and>
   escapeCsv (Some ''45,90'') \<noteq> ''45,90''"
  by (simp add: escapeCsv_def csv_special_def replaceAll_quote_def)

text \<open>
  C3, amended. A field is wrapped in double quotes, with every double quote inside it
  doubled, if and only if its text holds a double quote, a comma, a semicolon or a line
  feed; a field with none of these four characters is emitted as it is, and holds no
  double quote.
\<close>

theorem escapeCsv_quoted_iff:
  "(set text \<inter> {CHR 0x22, CHR 0x2C, CHR 0x3B, CHR 0x0A} \<noteq> {} \<longrightarrow>
      escapeCsv (Some text) = [CHR 0x22] @ replaceAll_quote text @ [CHR 0x22]) \<and>
   (set text \<inter> {CHR 0x22, CHR 0x2C, CHR 0x3B, CHR 0x0A} = {} \<longrightarrow>
      escapeCsv (Some text) = text \<and> CHR 0x22 \<notin> set (escapeCsv (Some text)))"
  unfolding escapeCsv_def Let_def list_ex_csv_special by auto

theorem escapeCsv_quoted_iff_witness:
  "set ''a;b'' \<inter> {CHR 0x22, CHR 0x2C, CHR 0x3B, CHR 0x0A} \<noteq> {} \<and>
   escapeCsv (Some ''a;b'') = [CHR 0x22] @ ''a;b'' @ [CHR 0x22] \<and>
   set ''fornecedor'' \<inter> {CHR 0x22, CHR 0x2C, CHR 0x3B, CHR 0x0A} = {} \<and>
   escapeCsv (Some ''fornecedor'') = ''fornecedor''"
  using escapeCsv_quoted_iff [of "''a;b''"] escapeCsv_quoted_iff [of "''fornecedor''"]
  by (simp add: replaceAll_quote_def)

section \<open>Session store: reading the current user\<close>

lemma JSON_parse_bad: "JSON_parse ''{bad'' = None"
  unfolding JSON_parse_def by code_simp

text \<open>
  C10, as stated, fails for one stored value: the empty text is not valid JSON, and
  \<open>getCurrentUser\<close> returns null for it without removing the record, since the guard
  \<open>if (!raw) return null\<close> comes before the parse.
\<close>

theorem getCurrentUser_empty_counterexample:
  "JSON_parse [] = None \<and>
   fst (getCurrentUser JSON_parse [USER_KEY \<mapsto> []]) = None \<and>
   snd (getCurrentUser JSON_parse [USER_KEY \<mapsto> []]) USER_KEY = Some []"
  by (simp add: getCurrentUser_def JSON_parse_def JSON_valid_def)

text \<open>
  C10, amended. Reading the current user always returns. For every non-empty stored
  value that is not valid JSON it returns null and removes the record, so that a second
  read returns null as well; when no value is stored, or the stored value is the empty
  text, it returns null and leaves the storage as it is.
\<close>

theorem getCurrentUser_self_heals:
  "(\<forall>raw. ls USER_KEY = Some raw \<and> raw \<noteq> [] \<and> parse raw = None \<longrightarrow>
      getCurrentUser parse ls = (None, ls(USER_KEY := None)) \<and>
      getCurrentUser parse (ls(USER_KEY := None)) = (None, ls(USER_KEY := None))) \<and>
   (ls USER_KEY = None \<or> ls USER_KEY = Some [] \<longrightarrow> getCurrentUser parse ls = (None, ls))"
  by (auto simp: getCurrentUser_def)

theorem getCurrentUser_self_heals_witness:
  "[USER_KEY \<mapsto> ''{bad''] USER_KEY = Some ''{bad'' \<and> ''{bad'' \<noteq> [] \<and>
   JSON_parse ''{bad'' = None \<and>
   getCurrentUser JSON_parse [USER_KEY \<mapsto> ''{bad''] = (None, Map.empty) \<and>
   getCurrentUser JSON_parse Map.empty = (None, Map.empty)"
  using getCurrentUser_self_heals [of "[USER_KEY \<mapsto> ''{bad'']" JSON_parse]
    getCurrentUser_self_heals [of "Map.empty" JSON_parse] JSON_parse_bad
  by simp

section \<open>File validation\<close>

lemma lower_char_idem: "lower_char (lower_char c) = lower_char c"
  by (simp add: lower_char_def Let_def)

lemma suffix_iff_drop:
  "suffix p s \<longleftrightarrow> length p \<le> length s \<and> drop (length s - length p) s = p"
proof
  assume "suffix p s"
  then obtain ys where "s = ys @ p" by (auto simp: suffix_def)
  then show "length p \<le> length s \<and> drop (length s - length p) s = p" by simp
next
  assume h: "length p \<le> length s \<and> drop (length s - length p) s = p"
  have "s = take (length s - length p) s @ drop (length s - length p) s" by simp
  with h have "s = take (length s - length p) s @ p" by simp
  then show "suffix p s" unfolding suffix_def by blast
qed

lemma ends_with_lowered:
  assumes "map lower_char p = p"
  shows "ends_with_ignoring_case (toLowerCase s) p \<longleftrightarrow> suffix p (toLowerCase s)"
proof -
  have "map lower_char (drop n (toLowerCase s)) = drop n (toLowerCase s)" for n
    by (simp add: toLowerCase_def drop_map lower_char_idem)
  then show ?thesis
    using assms by (simp add: ends_with_ignoring_case_def suffix_iff_drop)
qed

lemma image_name_test_lowered:
  "image_name_test (toLowerCase s) \<longleftrightarrow>
     (\<exists>ext\<in>set [''png'', ''jpg'', ''jpeg'', ''webp'', ''bmp'', ''gif'', ''heic'', ''heif''].
        suffix (CHR ''.'' # ext) (toLowerCase s))"
proof -
  have low: "map lower_char (CHR ''.'' # alt) = CHR ''.'' # alt"
    if "alt \<in> set regex_alternatives" for alt
    using that by (auto simp: regex_alternatives_def lower_char_def)
  have "image_name_test (toLowerCase s) \<longleftrightarrow>
          (\<exists>alt\<in>set regex_alternatives. suffix (CHR ''.'' # alt) (toLowerCase s))"
    unfolding image_name_test_def list_ex_iff
    using ends_with_lowered [OF low] by blast
  then show ?thesis by (simp only: regex_alternatives_def)
qed

text \<open>
  C9. A file passes the validation of the digitization workflow if and only if its
  declared media type starts with \<open>image/\<close> or its name, lowercased, ends with a dot
  and one of the extensions png, jpg, jpeg, webp, bmp, gif, heic, heif; any other file is
  answered with the invalid-file message, and neither the resize nor the upload is called
  and the draft stays as it was.
\<close>

theorem isLikelyImageFile_iff:
  "(isLikelyImageFile f \<longleftrightarrow>
      startsWith (file_type f) ''image/'' \<or>
      (\<exists>ext\<in>set [''png'', ''jpg'', ''jpeg'', ''webp'', ''bmp'', ''gif'', ''heic'', ''heif''].
         suffix (CHR ''.'' # ext) (toLowerCase (file_name f)))) \<and>
   (\<not> isLikelyImageFile f \<longrightarrow>
      cp_error (handleScanReceiptFile env f st) = invalid_file_error \<and>
      cp_calls (handleScanReceiptFile env f st) = cp_calls st \<and>
      cp_form (handleScanReceiptFile env f st) = cp_form st)"
proof (intro conjI impI)
  show "isLikelyImageFile f \<longleftrightarrow>
      startsWith (file_type f) ''image/'' \<or>
      (\<exists>ext\<in>set [''png'', ''jpg'', ''jpeg'', ''webp'', ''bmp'', ''gif'', ''heic'', ''heif''].
         suffix (CHR ''.'' # ext) (toLowerCase (file_name f)))"
    unfolding isLikelyImageFile_def Let_def image_name_test_lowered by simp
next
  assume "\<not> isLikelyImageFile f"
  then show "cp_error (handleScanReceiptFile env f st) = invalid_file_error"
    and "cp_calls (handleScanReceiptFile env f st) = cp_calls st"
    and "cp_form (handleScanReceiptFile env f st) = cp_form st"
    by (simp_all add: handleScanReceiptFile_def)
qed

lemma photo_ok: "isLikelyImageFile example_photo"
  by code_simp

lemma pdf_bad: "\<not> isLikelyImageFile example_pdf"
  by code_simp

theorem isLikelyImageFile_iff_witness:
  "isLikelyImageFile example_photo \<and>
   (\<exists>ext\<in>set [''png'', ''jpg'', ''jpeg'', ''webp'', ''bmp'', ''gif'', ''heic'', ''heif''].
      suffix (CHR ''.'' # ext) (toLowerCase (file_name example_photo))) \<and>
   \<not> isLikelyImageFile example_pdf \<and>
   cp_error (handleScanReceiptFile (example_environment [] (Inl unauthorized)) example_pdf example_page)
     = invalid_file_error \<and>
   cp_calls (handleScanReceiptFile (example_environment [] (Inl unauthorized)) example_pdf example_page)
     = []"
proof -
  have no_type: "\<not> startsWith (file_type example_photo) ''image/''"
    by (simp add: example_photo_def startsWith_def)
  have calls: "cp_calls example_page = []"
    by (simp add: example_page_def)
  show ?thesis
    using isLikelyImageFile_iff [of example_photo]
      isLikelyImageFile_iff [of example_pdf "example_environment [] (Inl unauthorized)" example_page]
      pdf_bad photo_ok no_type calls
    by simp
qed

section \<open>Receipt digitization: the size cap and the session\<close>

lemma payload_length: "11 \<le> n \<Longrightarrow> length (payload_of_length n) = n"
  by (simp add: payload_of_length_def)

lemma payload_prefix: "startsWith (payload_of_length n) ''data:image/''"
  by (simp add: payload_of_length_def startsWith_def)

lemma example_optimized:
  "fileToOptimizedDataUrl (example_environment payload outcome) f = Inr payload"
  by (simp add: fileToOptimizedDataUrl_def example_environment_def split: prod.split)

text \<open>
  C6. Once the file has passed validation and the resize has given its encoded payload: a
  payload of more than 9,500,000 characters is rejected before the upload step, so that
  no request to the recognition service is issued and the draft is left as it was, and
  the error shown is the size error whenever the payload is an encoded image (has the
  prefix \<open>data:image/\<close>; without it the invalid-file error is shown). An encoded image of
  exactly 9,500,000 characters passes this check: the request is issued.
\<close>

theorem payload_size_cap:
  assumes "isLikelyImageFile f" and "fileToOptimizedDataUrl env f = Inr payload"
  shows "(9500000 < length payload \<longrightarrow>
            cp_calls (handleScanReceiptFile env f st) = cp_calls st @ [OptimizeImage f] \<and>
            cp_form (handleScanReceiptFile env f st) = cp_form st \<and>
            cp_error (handleScanReceiptFile env f st) \<in> {too_large_error, invalid_file_error} \<and>
            (startsWith payload ''data:image/'' \<longrightarrow>
               cp_error (handleScanReceiptFile env f st) = too_large_error)) \<and>
         (length payload = 9500000 \<and> startsWith payload ''data:image/'' \<longrightarrow>
            cp_calls (handleScanReceiptFile env f st)
              = cp_calls st @ [OptimizeImage f, scan_request payload])"
  using assms
  by (simp add: handleScanReceiptFile_def Let_def scan_catch_def scan_apply_def split: sum.split)

theorem payload_size_cap_witness:
  "isLikelyImageFile example_photo \<and>
   fileToOptimizedDataUrl (example_environment (payload_of_length 9500001) (Inl unauthorized))
     example_photo = Inr (payload_of_length 9500001) \<and>
   9500000 < length (payload_of_length 9500001) \<and>
   cp_calls (handleScanReceiptFile
      (example_environment (payload_of_length 9500001) (Inl unauthorized))
      example_photo example_page) = [OptimizeImage example_photo] \<and>
   cp_error (handleScanReceiptFile
      (example_environment (payload_of_length 9500001) (Inl unauthorized))
      example_photo example_page) = too_large_error \<and>
   length (payload_of_length 9500000) = 9500000 \<and>
   cp_calls (handleScanReceiptFile
      (example_environment (payload_of_length 9500000) (Inl unauthorized))
      example_photo example_page)
     = [OptimizeImage example_photo, scan_request (payload_of_length 9500000)]"
proof -
  have calls: "cp_calls example_page = []"
    by (simp add: example_page_def)
  show ?thesis
    using payload_size_cap [OF photo_ok example_optimized, of "payload_of_length 9500001" "Inl unauthorized" example_page]
      payload_size_cap [OF photo_ok example_optimized, of "payload_of_length 9500000" "Inl unauthorized" example_page]
      photo_ok example_optimized payload_prefix calls
    by (simp add: payload_length)
qed

lemma scan_keeps_session:
  "cp_localStorage (handleScanReceiptFile env f st) = cp_localStorage st \<and>
   cp_navigations (handleScanReceiptFile env f st) = cp_navigations st"
  by (simp add: handleScanReceiptFile_def Let_def scan_catch_def scan_apply_def
      split: sum.split)

lemma example_payload_ok:
  "startsWith (payload_of_length 4000) ''data:image/'' \<and> \<not> 9500000 < length (payload_of_length 4000)"
  by (simp add: payload_prefix payload_length)

text \<open>
  C1 does not hold of the code. The handler of the digitization leaves the session store
  and the route as they were, whatever the file and whatever the answers. With an upload
  answered by 401 Unauthorized it shows the message of the response as a digitization
  error, and the user stays authenticated; the dashboard load, given the same answer,
  clears the session store and navigates to the login page.
\<close>

theorem scan_unauthorized_keeps_session:
  "cp_localStorage (handleScanReceiptFile env f st) = cp_localStorage st \<and>
   cp_navigations (handleScanReceiptFile env f st) = cp_navigations st \<and>
   cp_calls (handleScanReceiptFile (example_environment (payload_of_length 4000) (Inl unauthorized))
      example_photo example_page)
     = [OptimizeImage example_photo, scan_request (payload_of_length 4000)] \<and>
   cp_error (handleScanReceiptFile (example_environment (payload_of_length 4000) (Inl unauthorized))
      example_photo example_page) = ''Unauthorized'' \<and>
   isAuthenticated (cp_localStorage
     (handleScanReceiptFile (example_environment (payload_of_length 4000) (Inl unauthorized))
        example_photo example_page)) \<and>
   cp_navigations (handleScanReceiptFile (example_environment (payload_of_length 4000) (Inl unauthorized))
      example_photo example_page) = [] \<and>
   \<not> isAuthenticated (cp_localStorage
     (loadDashboard (example_environment (payload_of_length 4000) (Inl unauthorized)) example_page)) \<and>
   cp_navigations
     (loadDashboard (example_environment (payload_of_length 4000) (Inl unauthorized)) example_page)
     = [''/login'']"
proof -
  let ?env = "example_environment (payload_of_length 4000) (Inl unauthorized)"
  have scan: "env_scanReceipt ?env (payload_of_length 4000) = Inl unauthorized"
    by (simp add: example_environment_def)
  have msg: "extractApiMessage unauthorized = Some ''Unauthorized''"
    by (simp add: unauthorized_def trim_def is_space_def)
  have page: "cp_calls example_page = []" "cp_navigations example_page = []"
    "isAuthenticated (cp_localStorage example_page)"
    by (simp_all add: example_page_def isAuthenticated_def getToken_def TOKEN_KEY_def USER_KEY_def)
  have list: "env_listEntries ?env ps = Inl unauthorized"
    and summary: "env_dailySummary ?env day = Inl unauthorized" for ps day
    by (simp_all add: example_environment_def)
  have un: "is_unauthorized unauthorized"
    by (simp add: unauthorized_def)
  have a: "handleScanReceiptFile ?env example_photo example_page
       = example_page\<lparr> cp_error := ''Unauthorized'', cp_ocrInfo := None,
           cp_scanningReceipt := False, cp_receiptInput := [],
           cp_calls := [OptimizeImage example_photo, scan_request (payload_of_length 4000)] \<rparr>"
    using photo_ok example_payload_ok page
    by (simp add: handleScanReceiptFile_def Let_def example_optimized scan scan_catch_def msg)
  have b: "cp_localStorage (loadDashboard ?env example_page) = logout (cp_localStorage example_page)"
    "cp_navigations (loadDashboard ?env example_page) = [''/login'']"
    using page
    by (simp_all add: loadDashboard_def Let_def list summary un dashboard_catch_def
        handleUnauthorized_def)
  have c: "\<not> isAuthenticated (logout ls)" for ls
    by (simp add: isAuthenticated_def getToken_def logout_def TOKEN_KEY_def USER_KEY_def)
  show ?thesis
    unfolding a b using page c scan_keeps_session [of env f st] by simp
qed

section \<open>Receipt digitization: the draft merge\<close>

text \<open>
  C2. When the file has passed validation, the resize has given an encoded image within
  the size cap and the recognition call has answered with a result, the handler replaces
  the draft by the merge of the draft it finds with that result, and with a result of no
  defined field the draft is left as it was. The merge is a field-level overwrite: for
  each of the six fields independently, a field the result defines replaces the draft's
  field, and a field the result leaves undefined keeps the draft's value; merging the
  empty result gives the draft back.
\<close>

theorem merge_form_fieldwise:
  assumes "isLikelyImageFile f"
    and "fileToOptimizedDataUrl env f = Inr payload"
    and "startsWith payload ''data:image/''"
    and "length payload \<le> 9500000"
  shows "(env_scanReceipt env payload = Inr r \<longrightarrow>
            cp_form (handleScanReceiptFile env f st) = merge_form (cp_form st) r) \<and>
   (env_scanReceipt env payload = Inr (empty_result c) \<longrightarrow>
            cp_form (handleScanReceiptFile env f st) = cp_form st) \<and>
   (\<forall>v. scan_type r = Some v \<longrightarrow> dto_type (merge_form d r) = v) \<and>
   (scan_type r = None \<longrightarrow> dto_type (merge_form d r) = dto_type d) \<and>
   (\<forall>v. scan_paymentMethod r = Some v \<longrightarrow> dto_paymentMethod (merge_form d r) = v) \<and>
   (scan_paymentMethod r = None \<longrightarrow> dto_paymentMethod (merge_form d r) = dto_paymentMethod d) \<and>
   (\<forall>v. scan_amount r = Some v \<longrightarrow> dto_amount (merge_form d r) = v) \<and>
   (scan_amount r = None \<longrightarrow> dto_amount (merge_form d r) = dto_amount d) \<and>
   (\<forall>v. scan_description r = Some v \<longrightarrow> dto_description (merge_form d r) = v) \<and>
   (scan_description r = None \<longrightarrow> dto_description (merge_form d r) = dto_description d) \<and>
   (\<forall>v. scan_category r = Some v \<longrightarrow> dto_category (merge_form d r) = Some v) \<and>
   (scan_category r = None \<longrightarrow> dto_category (merge_form d r) = dto_category d) \<and>
   (\<forall>v. scan_entryDate r = Some v \<longrightarrow> dto_entryDate (merge_form d r) = Some v) \<and>
   (scan_entryDate r = None \<longrightarrow> dto_entryDate (merge_form d r) = dto_entryDate d) \<and>
   merge_form d (empty_result c) = d"
proof -
  have handler: "cp_form (handleScanReceiptFile env f st) = merge_form (cp_form st) x"
    if "env_scanReceipt env payload = Inr x" for x
    using assms that by (simp add: handleScanReceiptFile_def Let_def scan_apply_def)
  have unit: "merge_form x (empty_result c) = x" for x
    by (simp add: merge_form_def nullish_def nullish_opt_def empty_result_def)
  have fields:
    "(\<forall>v. scan_type r = Some v \<longrightarrow> dto_type (merge_form d r) = v) \<and>
     (scan_type r = None \<longrightarrow> dto_type (merge_form d r) = dto_type d) \<and>
     (\<forall>v. scan_paymentMethod r = Some v \<longrightarrow> dto_paymentMethod (merge_form d r) = v) \<and>
     (scan_paymentMethod r = None \<longrightarrow> dto_paymentMethod (merge_form d r) = dto_paymentMethod d) \<and>
     (\<forall>v. scan_amount r = Some v \<longrightarrow> dto_amount (merge_form d r) = v) \<and>
     (scan_amount r = None \<longrightarrow> dto_amount (merge_form d r) = dto_amount d) \<and>
     (\<forall>v. scan_description r = Some v \<longrightarrow> dto_description (merge_form d r) = v) \<and>
     (scan_description r = None \<longrightarrow> dto_description (merge_form d r) = dto_description d) \<and>
     (\<forall>v. scan_category r = Some v \<longrightarrow> dto_category (merge_form d r) = Some v) \<and>
     (scan_category r = None \<longrightarrow> dto_category (merge_form d r) = dto_category d) \<and>
     (\<forall>v. scan_entryDate r = Some v \<longrightarrow> dto_entryDate (merge_form d r) = Some v) \<and>
     (scan_entryDate r = None \<longrightarrow> dto_entryDate (merge_form d r) = dto_entryDate d)"
    by (simp add: merge_form_def nullish_def nullish_opt_def)
  show ?thesis
    using handler [of r] handler [of "empty_result c"] unit fields by simp
qed

theorem merge_form_fieldwise_witness:
  "isLikelyImageFile example_photo \<and>
   fileToOptimizedDataUrl (example_environment (payload_of_length 4000) (Inr example_result))
     example_photo = Inr (payload_of_length 4000) \<and>
   startsWith (payload_of_length 4000) ''data:image/'' \<and>
   length (payload_of_length 4000) \<le> 9500000 \<and>
   env_scanReceipt (example_environment (payload_of_length 4000) (Inr example_result))
     (payload_of_length 4000) = Inr example_result \<and>
   cp_form (handleScanReceiptFile
      (example_environment (payload_of_length 4000) (Inr example_result))
      example_photo example_page)
     = example_draft\<lparr> dto_amount := Finite (241 / 2) \<rparr> \<and>
   scan_amount example_result = Some (Finite (241 / 2)) \<and>
   dto_amount (merge_form example_draft example_result) = Finite (241 / 2) \<and>
   scan_description example_result = None \<and>
   dto_description (merge_form example_draft example_result) = ''almoco'' \<and>
   merge_form example_draft (empty_result None) = example_draft"
proof -
  let ?env = "example_environment (payload_of_length 4000) (Inr example_result)"
  have len: "length (payload_of_length 4000) \<le> 9500000"
    by (simp add: payload_length)
  have scan: "env_scanReceipt ?env (payload_of_length 4000) = Inr example_result"
    by (simp add: example_environment_def)
  have form: "cp_form example_page = example_draft"
    by (simp add: example_page_def)
  have merged: "merge_form example_draft example_result
      = example_draft\<lparr> dto_amount := Finite (241 / 2) \<rparr>"
    by (simp add: merge_form_def nullish_def nullish_opt_def example_result_def
        empty_result_def example_draft_def)
  from merge_form_fieldwise [where r = example_result and st = example_page and c = None
      and d = example_draft, OF photo_ok example_optimized payload_prefix len]
  have "(env_scanReceipt ?env (payload_of_length 4000) = Inr example_result \<longrightarrow>
          cp_form (handleScanReceiptFile ?env example_photo example_page)
            = merge_form (cp_form example_page) example_result) \<and>
        (\<forall>v. scan_amount example_result = Some v \<longrightarrow>
           dto_amount (merge_form example_draft example_result) = v) \<and>
        (scan_description example_result = None \<longrightarrow>
           dto_description (merge_form example_draft example_result)
             = dto_description example_draft) \<and>
        merge_form example_draft (empty_result None) = example_draft"
    by blast
  moreover have "scan_amount example_result = Some (Finite (241 / 2))"
    "scan_description example_result = None"
    "dto_description example_draft = ''almoco''"
    by (simp_all add: example_result_def empty_result_def example_draft_def)
  ultimately have "cp_form (handleScanReceiptFile ?env example_photo example_page)
        = example_draft\<lparr> dto_amount := Finite (241 / 2) \<rparr> \<and>
      scan_amount example_result = Some (Finite (241 / 2)) \<and>
      dto_amount (merge_form example_draft example_result) = Finite (241 / 2) \<and>
      scan_description example_result = None \<and>
      dto_description (merge_form example_draft example_result) = ''almoco'' \<and>
      merge_form example_draft (empty_result None) = example_draft"
    using scan form merged by metis
  then show ?thesis
    using photo_ok example_optimized [of "payload_of_length 4000" "Inr example_result" example_photo]
      payload_prefix [of 4000] len scan
    by blast
qed

section \<open>Query construction\<close>

lemma type_text_nonempty: "type_text t \<noteq> []" "[] \<noteq> type_text t"
  by (cases t; simp)+

lemma payment_text_nonempty: "payment_text m \<noteq> []" "[] \<noteq> payment_text m"
  by (cases m; simp)+

lemma map_of_optional:
  "map_of (if c then [(k, v)] else []) k' = (if c \<and> k' = k then Some v else None)"
  by simp

lemma map_of_append_first:
  "map_of (xs @ ys) k = (case map_of xs k of Some v \<Rightarrow> Some v | None \<Rightarrow> map_of ys k)"
  by (simp add: map_add_def split: option.split)

lemma report_params_lookup:
  "map_of (report_params r) ''type''
     = (case rp_typeFilter r of FilterALL \<Rightarrow> None | Only t \<Rightarrow> Some (type_text t))"
  "map_of (report_params r) ''dateFrom''
     = (if rp_dateFrom r = [] then None else Some (rp_dateFrom r))"
  "map_of (report_params r) ''dateTo''
     = (if rp_dateTo r = [] then None else Some (rp_dateTo r))"
  "map_of (report_params r) ''category''
     = (if trim (rp_category r) = [] then None else Some (trim (rp_category r)))"
  "map_of (report_params r) ''description''
     = (if trim (rp_description r) = [] then None else Some (trim (rp_description r)))"
  "map_of (report_params r) ''minAmount''
     = (if rp_minAmount r = [] then None else Some (rp_minAmount r))"
  "map_of (report_params r) ''maxAmount''
     = (if rp_maxAmount r = [] then None else Some (rp_maxAmount r))"
  by (cases "rp_typeFilter r";
      simp add: report_params_def map_of_append_first map_of_optional del: map_of_append)+

lemma report_params_shape:
  "distinct (map fst (report_params r))"
  "[] \<notin> snd ` set (report_params r)"
  by (auto simp: report_params_def type_text_nonempty split: filter_choice.split)

lemma dashboard_params_lookup:
  "map_of (dashboard_params d) ''date'' = Some (cp_selectedDate d)"
  "map_of (dashboard_params d) ''type''
     = (case cp_typeFilter d of FilterALL \<Rightarrow> None | Only t \<Rightarrow> Some (type_text t))"
  "map_of (dashboard_params d) ''paymentMethod''
     = (case cp_paymentFilter d of FilterALL \<Rightarrow> None | Only m \<Rightarrow> Some (payment_text m))"
  by (simp_all add: dashboard_params_def split: filter_choice.split)

lemma dashboard_params_shape:
  "distinct (map fst (dashboard_params d))"
  "\<forall>(k, v)\<in>set (dashboard_params d). v = [] \<longrightarrow> k = ''date''"
  by (auto simp: dashboard_params_def type_text_nonempty payment_text_nonempty
      split: filter_choice.split)

lemma report_params_cong:
  "report_params (st\<lparr> rp_loading := a, rp_error := b \<rparr>) = report_params st"
  by (simp add: report_params_def)

lemma dashboard_params_cong:
  "dashboard_params (st\<lparr> cp_loadingDashboard := a, cp_error := b \<rparr>) = dashboard_params st"
  by (simp add: dashboard_params_def)

lemma loadReport_calls:
  "rp_calls (loadReport env r) = rp_calls r @ [HttpGet ''/cash-entries'' (report_params r)]"
  by (cases "env_listEntries env (report_params r)")
    (simp_all add: loadReport_def Let_def report_params_cong report_handleUnauthorized_def)

lemma loadDashboard_calls:
  "cp_calls (loadDashboard env d)
     = cp_calls d @ [HttpGet ''/cash-entries'' (dashboard_params d),
                     HttpGet ''/cash-summary/daily'' [(''date'', cp_selectedDate d)]]"
  by (cases "env_listEntries env (dashboard_params d)";
      cases "env_dailySummary env (cp_selectedDate d)")
    (simp_all add: loadDashboard_def Let_def dashboard_params_cong dashboard_catch_def
      handleUnauthorized_def)

text \<open>
  C8, as stated, fails for the dashboard's list request: its \<open>date\<close> parameter is sent
  unconditionally, so with the date input cleared the request carries \<open>date\<close> with an
  empty value.
\<close>

theorem dashboard_empty_date_counterexample:
  "cp_calls (loadDashboard (example_environment [] (Inl unauthorized))
      (example_page\<lparr> cp_selectedDate := [] \<rparr>))
     = [HttpGet ''/cash-entries'' [(''date'', [])],
        HttpGet ''/cash-summary/daily'' [(''date'', [])]]"
  by (simp add: loadDashboard_def Let_def dashboard_params_def example_page_def
      example_environment_def unauthorized_def dashboard_catch_def handleUnauthorized_def)

lemma example_report_params:
  "report_params example_report
     = [(''type'', ''OUT''), (''dateFrom'', ''2024-03-01''), (''description'', ''fornecedor''),
        (''maxAmount'', ''100'')]"
  by code_simp

text \<open>
  C8, amended. The report's list request carries a parameter for a predicate if and only
  if that predicate is set: \<open>type\<close> only when the filter is not ALL, \<open>dateFrom\<close> and
  \<open>dateTo\<close> only when non-empty, \<open>category\<close> and \<open>description\<close> only when non-blank
  after trimming (and then trimmed), \<open>minAmount\<close> and \<open>maxAmount\<close> only when non-empty;
  none of its parameters has an empty value. The dashboard's list request carries \<open>type\<close>
  and \<open>paymentMethod\<close> only when the filter is not ALL, and always carries \<open>date\<close> with
  the selected date as it is, which is the only parameter that can be empty.
\<close>

theorem query_params_omit_unset:
  "rp_calls (loadReport env r) = rp_calls r @ [HttpGet ''/cash-entries'' (report_params r)] \<and>
   map_of (report_params r) ''type''
     = (case rp_typeFilter r of FilterALL \<Rightarrow> None | Only t \<Rightarrow> Some (type_text t)) \<and>
   map_of (report_params r) ''dateFrom''
     = (if rp_dateFrom r = [] then None else Some (rp_dateFrom r)) \<and>
   map_of (report_params r) ''dateTo''
     = (if rp_dateTo r = [] then None else Some (rp_dateTo r)) \<and>
   map_of (report_params r) ''category''
     = (if trim (rp_category r) = [] then None else Some (trim (rp_category r))) \<and>
   map_of (report_params r) ''description''
     = (if trim (rp_description r) = [] then None else Some (trim (rp_description r))) \<and>
   map_of (report_params r) ''minAmount''
     = (if rp_minAmount r = [] then None else Some (rp_minAmount r)) \<and>
   map_of (report_params r) ''maxAmount''
     = (if rp_maxAmount r = [] then None else Some (rp_maxAmount r)) \<and>
   distinct (map fst (report_params r)) \<and>
   [] \<notin> snd ` set (report_params r) \<and>
   cp_calls (loadDashboard env d)
     = cp_calls d @ [HttpGet ''/cash-entries'' (dashboard_params d),
                     HttpGet ''/cash-summary/daily'' [(''date'', cp_selectedDate d)]] \<and>
   map_of (dashboard_params d) ''date'' = Some (cp_selectedDate d) \<and>
   map_of (dashboard_params d) ''type''
     = (case cp_typeFilter d of FilterALL \<Rightarrow> None | Only t \<Rightarrow> Some (type_text t)) \<and>
   map_of (dashboard_params d) ''paymentMethod''
     = (case cp_paymentFilter d of FilterALL \<Rightarrow> None | Only m \<Rightarrow> Some (payment_text m)) \<and>
   distinct (map fst (dashboard_params d)) \<and>
   (\<forall>(k, v)\<in>set (dashboard_params d). v = [] \<longrightarrow> k = ''date'')"
  by (intro conjI report_params_lookup report_params_shape dashboard_params_lookup
      dashboard_params_shape loadReport_calls loadDashboard_calls)

theorem query_params_omit_unset_witness:
  "report_params example_report
     = [(''type'', ''OUT''), (''dateFrom'', ''2024-03-01''), (''description'', ''fornecedor''),
        (''maxAmount'', ''100'')] \<and>
   map_of (report_params example_report) ''category'' = None \<and>
   map_of (report_params example_report) ''description'' = Some ''fornecedor'' \<and>
   dashboard_params (example_page\<lparr> cp_typeFilter := Only OUT, cp_selectedDate := [] \<rparr>)
     = [(''date'', []), (''type'', ''OUT'')] \<and>
   map_of (dashboard_params (example_page\<lparr> cp_typeFilter := Only OUT, cp_selectedDate := [] \<rparr>))
     ''paymentMethod'' = None"
proof -
  have d: "dashboard_params (example_page\<lparr> cp_typeFilter := Only OUT, cp_selectedDate := [] \<rparr>)
      = [(''date'', []), (''type'', ''OUT'')]"
    by (simp add: dashboard_params_def example_page_def)
  show ?thesis
    using query_params_omit_unset
      [of "example_environment [] (Inl unauthorized)" example_report
         "example_page\<lparr> cp_typeFilter := Only OUT, cp_selectedDate := [] \<rparr>"]
    unfolding example_report_params d by simp
qed

section \<open>Delimited-text export: the round trip\<close>

lemma read_unquoted:
  "\<not> list_ex csv_special f \<Longrightarrow> CHR 0x0D \<notin> set f \<Longrightarrow>
     csv_read InUnquoted cur row rows (f @ rest) = csv_read InUnquoted (cur @ f) row rows rest"
proof (induction f arbitrary: cur)
  case Nil
  then show ?case by simp
next
  case (Cons c f)
  from Cons.prems have nc: "\<not> csv_special c" and f: "\<not> list_ex csv_special f"
    and cr: "c \<noteq> CHR 0x0D" and fcr: "CHR 0x0D \<notin> set f"
    by auto
  from nc have c: "c \<noteq> CHR 0x22" "c \<noteq> CHR 0x3B" "c \<noteq> CHR 0x0A"
    by (simp_all add: csv_special_def)
  show ?case using Cons.IH [OF f fcr, of "cur @ [c]"] c cr by simp
qed

lemma read_quoted:
  "csv_read InQuoted cur row rows (replaceAll_quote f @ CHR 0x22 # rest)
     = csv_read AfterQuote (cur @ f) row rows rest"
proof (induction f arbitrary: cur)
  case Nil
  then show ?case by (simp add: replaceAll_quote_def)
next
  case (Cons c f)
  have step: "replaceAll_quote (x # f) = (if x = CHR 0x22 then [x, x] else [x]) @ replaceAll_quote f"
    for x by (simp add: replaceAll_quote_def)
  show ?case using Cons.IH [of "cur @ [c]"] by (cases "c = CHR 0x22") (simp_all add: step)
qed

lemma read_field:
  assumes "rest = [] \<or> hd rest = CHR 0x3B \<or> hd rest = CHR 0x0A"
    and "carriage_return_quoted f"
  shows "csv_read FieldStart [] row rows (escapeCsv (Some f) @ rest) = after_field f row rows rest"
proof (cases "list_ex csv_special f")
  case True
  have "csv_read FieldStart [] row rows (escapeCsv (Some f) @ rest)
          = csv_read AfterQuote f row rows rest"
    using True read_quoted [of "[]" row rows f rest] by (simp add: escapeCsv_def)
  also have "\<dots> = after_field f row rows rest"
    using assms(1) by (cases rest) (auto simp: after_field_def)
  finally show ?thesis .
next
  case False
  then have fcr: "CHR 0x0D \<notin> set f"
    using assms(2) by (auto simp: carriage_return_quoted_def)
  show ?thesis
  proof (cases f)
    case Nil
    then show ?thesis
      using assms(1) by (cases rest) (auto simp: escapeCsv_def after_field_def)
  next
    case (Cons c f')
    with False fcr have nc: "\<not> csv_special c" and f': "\<not> list_ex csv_special f'"
      and cr: "c \<noteq> CHR 0x0D" and fcr': "CHR 0x0D \<notin> set f'"
      by auto
    from nc have c: "c \<noteq> CHR 0x22" "c \<noteq> CHR 0x3B" "c \<noteq> CHR 0x0A"
      by (simp_all add: csv_special_def)
    have "csv_read FieldStart [] row rows (escapeCsv (Some f) @ rest)
            = csv_read InUnquoted [c] row rows (f' @ rest)"
      using False c cr by (simp add: escapeCsv_def Cons)
    also have "\<dots> = csv_read InUnquoted f row rows rest"
      using read_unquoted [OF f' fcr', of "[c]"] by (simp add: Cons)
    also have "\<dots> = after_field f row rows rest"
      using assms(1) by (cases rest) (auto simp: after_field_def)
    finally show ?thesis .
  qed
qed

lemma read_line:
  assumes "rest = [] \<or> hd rest = CHR 0x0A"
  shows "fs \<noteq> [] \<Longrightarrow> list_all carriage_return_quoted fs \<Longrightarrow>
     csv_read FieldStart [] row rows (csv_line fs @ rest)
       = (case rest of [] \<Rightarrow> Some (rows @ [row @ fs])
          | c # cs \<Rightarrow> csv_read RecordStart [] [] (rows @ [row @ fs]) cs)"
proof (induction fs arbitrary: row)
  case Nil
  then show ?case by simp
next
  case (Cons f fs)
  from Cons.prems have f: "carriage_return_quoted f" and fs: "list_all carriage_return_quoted fs"
    by simp_all
  show ?case
  proof (cases fs)
    case Nil
    have "csv_read FieldStart [] row rows (csv_line [f] @ rest) = after_field f row rows rest"
      using read_field [of rest f row rows] assms f by (auto simp: csv_line_def)
    then show ?thesis
      using assms Nil by (cases rest) (auto simp: after_field_def)
  next
    case (Cons g gs)
    have line: "csv_line (f # fs) @ rest = escapeCsv (Some f) @ (CHR 0x3B # (csv_line fs @ rest))"
      by (simp add: csv_line_def Cons)
    have "csv_read FieldStart [] row rows (csv_line (f # fs) @ rest)
            = after_field f row rows (CHR 0x3B # (csv_line fs @ rest))"
      unfolding line using f by (intro read_field) simp_all
    also have "\<dots> = csv_read FieldStart [] (row @ [f]) rows (csv_line fs @ rest)"
      by (simp add: after_field_def)
    finally show ?thesis
      using Cons.IH [OF _ fs, of "row @ [f]"] Cons by (simp split: list.split)
  qed
qed

lemma record_start:
  "s \<noteq> [] \<Longrightarrow> csv_read RecordStart [] [] rows s = csv_read FieldStart [] [] rows s"
  by (cases s) simp_all

lemma csv_line_nonempty: "2 \<le> length fs \<Longrightarrow> csv_line fs \<noteq> []"
proof -
  assume "2 \<le> length fs"
  then obtain a b r where "fs = a # b # r"
    by (cases fs; cases "tl fs") auto
  then show ?thesis by (simp add: csv_line_def)
qed

lemma read_text:
  "rs \<noteq> [] \<Longrightarrow> \<forall>r\<in>set rs. 2 \<le> length r \<and> list_all carriage_return_quoted r \<Longrightarrow>
     csv_read RecordStart [] [] rows (join [CHR 0x0A] (map csv_line rs)) = Some (rows @ rs)"
proof (induction rs arbitrary: rows)
  case Nil
  then show ?case by simp
next
  case (Cons r rs)
  then have r: "r \<noteq> []" "list_all carriage_return_quoted r" and line: "csv_line r \<noteq> []"
    using csv_line_nonempty [of r] by auto
  show ?case
  proof (cases rs)
    case Nil
    then show ?thesis
      using read_line [of "[]" r "[]" rows] r record_start [OF line, of rows] by simp
  next
    case (Cons q qs)
    have unfold_join: "join [CHR 0x0A] (map csv_line (r # rs))
                  = csv_line r @ (CHR 0x0A # join [CHR 0x0A] (map csv_line rs))"
      by (simp add: Cons)
    have "csv_line r @ (CHR 0x0A # join [CHR 0x0A] (map csv_line rs)) \<noteq> []"
      using line by simp
    then have "csv_read RecordStart [] [] rows (join [CHR 0x0A] (map csv_line (r # rs)))
            = csv_read FieldStart [] [] rows
                (csv_line r @ (CHR 0x0A # join [CHR 0x0A] (map csv_line rs)))"
      unfolding unfold_join by (rule record_start)
    also have "\<dots> = csv_read RecordStart [] [] (rows @ [r]) (join [CHR 0x0A] (map csv_line rs))"
      using read_line [of "CHR 0x0A # join [CHR 0x0A] (map csv_line rs)" r "[]" rows] r
      by simp
    finally show ?thesis
      using Cons.IH [of "rows @ [r]"] Cons.prems Cons by simp
  qed
qed

lemma label_cells:
  "carriage_return_quoted (if t = IN then ''Entrada'' else ''Saida'')"
  "carriage_return_quoted (case m of None \<Rightarrow> [] | Some v \<Rightarrow> payment_text v)"
  "list_all carriage_return_quoted csv_header"
proof -
  show "carriage_return_quoted (if t = IN then ''Entrada'' else ''Saida'')"
    by (simp add: carriage_return_quoted_def)
  show "carriage_return_quoted (case m of None \<Rightarrow> [] | Some v \<Rightarrow> payment_text v)"
  proof (cases m)
    case None
    then show ?thesis by (simp add: carriage_return_quoted_def)
  next
    case (Some v)
    then show ?thesis by (cases v) (simp_all add: carriage_return_quoted_def)
  qed
  show "list_all carriage_return_quoted csv_header"
    by (simp add: csv_header_def carriage_return_quoted_def)
qed

text \<open>
  C4, as stated, fails: \<open>escapeCsv\<close> leaves a carriage return unquoted, and a standard
  reader ends a record there. An entry whose description is \<open>a\<close>, a carriage return and
  \<open>b\<close> is written as one row and read back as two.
\<close>

theorem export_carriage_return_counterexample:
  "entry_description carriage_return_entry = [CHR ''a'', CHR 0x0D, CHR ''b''] \<and>
   read_csv_document
     (handleDownloadCsv example_toLocale example_toFixed2 [carriage_return_entry])
     = Some [[''Data/Hora'', ''Tipo'', ''Categoria'', ''Descricao'', ''Pagamento'', ''Valor''],
             [''01/03/2024, 09:00:00'', ''Saida'', [], ''a''],
             [''b'', ''CASH'', ''45,50'']]"
  by code_simp

text \<open>
  C4, amended. The export round-trips for every result set in which each field value
  (formatted timestamp, category, description, formatted amount) that holds a carriage
  return also holds a double quote, a comma, a semicolon or a line feed, and is therefore
  quoted: whatever texts the formatting of timestamps and amounts gives, reading the
  produced document with a standard reader (semicolon as the delimiter, double-quote
  quoting with doubled inner quotes) gives back the header row followed by exactly the
  row tuples (formatted timestamp, type label, category or blank, description, payment
  method, formatted amount) that were written, whatever double quotes, semicolons, commas
  or line feeds the fields hold.
\<close>

theorem export_round_trip:
  assumes "\<forall>item\<in>set items.
      carriage_return_quoted (formatDateTimeBR toLocale (entry_createdAt item)) \<and>
      carriage_return_quoted (case entry_category item of None \<Rightarrow> [] | Some c \<Rightarrow> c) \<and>
      carriage_return_quoted (entry_description item) \<and>
      carriage_return_quoted (replace_dot (toFixed2 (entry_amount item)))"
  shows "read_csv_document (handleDownloadCsv toLocale toFixed2 items)
     = Some ([''Data/Hora'', ''Tipo'', ''Categoria'', ''Descricao'', ''Pagamento'', ''Valor'']
         # map (\<lambda>item.
             [formatDateTimeBR toLocale (entry_createdAt item),
              if entry_type item = IN then ''Entrada'' else ''Saida'',
              case entry_category item of None \<Rightarrow> [] | Some c \<Rightarrow> c,
              entry_description item,
              case entry_paymentMethod item of None \<Rightarrow> [] | Some m \<Rightarrow> payment_text m,
              replace_dot (toFixed2 (entry_amount item))]) items)"
proof -
  let ?rows = "csv_header # map (csv_row toLocale toFixed2) items"
  have "\<forall>r\<in>set ?rows. 2 \<le> length r \<and> list_all carriage_return_quoted r"
    using assms label_cells by (auto simp: csv_row_def csv_header_def)
  then have "csv_read RecordStart [] [] [] (join [CHR 0x0A] (map csv_line ?rows)) = Some ([] @ ?rows)"
    by (intro read_text) simp_all
  moreover have "csv_row toLocale toFixed2 = (\<lambda>item.
             [formatDateTimeBR toLocale (entry_createdAt item),
              if entry_type item = IN then ''Entrada'' else ''Saida'',
              case entry_category item of None \<Rightarrow> [] | Some c \<Rightarrow> c,
              entry_description item,
              case entry_paymentMethod item of None \<Rightarrow> [] | Some m \<Rightarrow> payment_text m,
              replace_dot (toFixed2 (entry_amount item))])"
    by (rule ext) (simp add: csv_row_def)
  ultimately show ?thesis
    by (simp add: handleDownloadCsv_def csv_text_def csv_header_def)
qed

theorem export_round_trip_witness:
  "CHR 0x0D \<in> set (entry_description quoted_entry) \<and>
   carriage_return_quoted (entry_description quoted_entry) \<and>
   read_csv_document (handleDownloadCsv example_toLocale example_toFixed2 [quoted_entry])
     = Some [[''Data/Hora'', ''Tipo'', ''Categoria'', ''Descricao'', ''Pagamento'', ''Valor''],
             [''01/03/2024, 09:00:00'', ''Entrada'', ''a;b'',
              [CHR 0x22, CHR ''x'', CHR 0x22, CHR 0x0D, CHR 0x0A, CHR ''y''], [], ''45,50'']]"
proof -
  have cells:
    "carriage_return_quoted (formatDateTimeBR example_toLocale (entry_createdAt quoted_entry))"
    "carriage_return_quoted (case entry_category quoted_entry of None \<Rightarrow> [] | Some c \<Rightarrow> c)"
    "carriage_return_quoted (entry_description quoted_entry)"
    "carriage_return_quoted (replace_dot (example_toFixed2 (entry_amount quoted_entry)))"
    by code_simp+
  have written:
    "entry_description quoted_entry = [CHR 0x22, CHR ''x'', CHR 0x22, CHR 0x0D, CHR 0x0A, CHR ''y'']"
    "formatDateTimeBR example_toLocale (entry_createdAt quoted_entry) = ''01/03/2024, 09:00:00''"
    "entry_category quoted_entry = Some ''a;b''" "entry_type quoted_entry = IN"
    "entry_paymentMethod quoted_entry = None"
    "replace_dot (example_toFixed2 (entry_amount quoted_entry)) = ''45,50''"
    by (simp_all add: quoted_entry_def example_toLocale_def example_toFixed2_def
        formatDateTimeBR_def)
  show ?thesis
    using export_round_trip [of "[quoted_entry]" example_toLocale example_toFixed2] cells
    by (simp add: written)
qed

section \<open>Binary64 arithmetic: rounding\<close>

lemma pow2_pos: "0 < (2::rat) powi k"
  by (simp add: zero_less_power_int)

lemma pow2_mono: "a \<le> b \<Longrightarrow> (2::rat) powi a \<le> 2 powi b"
  by (simp add: power_int_increasing)

lemma pow2_strict_mono: "a < b \<Longrightarrow> (2::rat) powi a < 2 powi b"
  by (simp add: power_int_strict_increasing)

lemma pow2_less_cancel: "(2::rat) powi a < 2 powi b \<Longrightarrow> a < b"
  using pow2_mono [of b a] by (cases "a < b") auto

lemma pow2_add: "(2::rat) powi (a + b) = 2 powi a * 2 powi b"
  by (simp add: power_int_add)

lemma pow2_diff: "(2::rat) powi (a - b) = 2 powi a / 2 powi b"
  by (simp add: power_int_diff)

lemma bitlen_rat_bounds:
  assumes "0 < p"
  shows "(2::rat) powi (bitlen p - 1) \<le> of_int p" and "of_int p < (2::rat) powi (bitlen p)"
proof -
  from bitlen_bounds [OF assms]
  have lo: "2 ^ nat (bitlen p - 1) \<le> p" and hi: "p < 2 ^ nat (bitlen p)" by auto
  have b1: "1 \<le> bitlen p"
    using assms bitlen_eq_zero_iff [of p] bitlen_nonneg [of p] by linarith
  have "(2::rat) powi (bitlen p - 1) = 2 ^ nat (bitlen p - 1)"
    using b1 by (simp add: power_int_def)
  also have "\<dots> = of_int (2 ^ nat (bitlen p - 1))" by simp
  also have "\<dots> \<le> of_int p" using lo by (simp only: of_int_le_iff)
  finally show "(2::rat) powi (bitlen p - 1) \<le> of_int p" .
  have "(of_int p :: rat) < of_int (2 ^ nat (bitlen p))" using hi by (simp only: of_int_less_iff)
  also have "\<dots> = 2 ^ nat (bitlen p)" by simp
  also have "\<dots> = (2::rat) powi (bitlen p)"
    using b1 by (simp add: power_int_def)
  finally show "of_int p < (2::rat) powi (bitlen p)" .
qed

lemma binade_bounds:
  assumes "0 < x"
  shows "2 powi (binade x) \<le> x" and "x < 2 powi (binade x + 1)"
proof -
  obtain p q where pq: "quotient_of x = (p, q)" by (cases "quotient_of x")
  have q: "0 < q" using pq by (rule quotient_of_denom_pos)
  have x: "x = of_int p / of_int q" using pq by (rule quotient_of_div)
  have p: "0 < p"
    using assms q unfolding x by (simp add: zero_less_divide_iff)
  let ?d = "bitlen p - bitlen q"
  have ax: "\<bar>x\<bar> = x" using assms by simp
  have b: "binade x = (if 2 powi ?d \<le> x then ?d else ?d - 1)"
    by (simp add: binade_def ax pq Let_def)
  have qpos: "(0::rat) < of_int q" using q by simp
  have up: "x < 2 powi (?d + 1)"
  proof -
    have "x * of_int q = of_int p" using qpos unfolding x by simp
    also have "\<dots> < 2 powi (bitlen p)" by (rule bitlen_rat_bounds(2) [OF p])
    also have "\<dots> = 2 powi (?d + 1) * 2 powi (bitlen q - 1)"
      by (simp add: pow2_add [symmetric])
    also have "\<dots> \<le> 2 powi (?d + 1) * of_int q"
      using bitlen_rat_bounds(1) [OF q] pow2_pos [of "?d + 1"] by (simp add: mult_left_mono)
    finally show ?thesis using qpos by simp
  qed
  have low: "2 powi (?d - 1) \<le> x"
  proof -
    have "(2::rat) powi (?d - 1) * of_int q \<le> 2 powi (?d - 1) * 2 powi (bitlen q)"
      using bitlen_rat_bounds(2) [OF q] pow2_pos [of "?d - 1"] by (simp add: mult_left_mono)
    also have "\<dots> = 2 powi (bitlen p - 1)"
      by (simp add: pow2_add [symmetric])
    also have "\<dots> \<le> of_int p" by (rule bitlen_rat_bounds(1) [OF p])
    also have "\<dots> = x * of_int q" using qpos unfolding x by simp
    finally show ?thesis using qpos by simp
  qed
  show "2 powi (binade x) \<le> x" using low unfolding b by simp
  show "x < 2 powi (binade x + 1)" using up unfolding b by (simp add: not_le)
qed

lemma round_ties_even_error: "\<bar>of_int (round_ties_even y) - y\<bar> \<le> 1 / 2"
proof -
  have "of_int \<lfloor>y\<rfloor> \<le> y" "y < of_int \<lfloor>y\<rfloor> + 1" by linarith+
  then show ?thesis
    unfolding round_ties_even_def Let_def by (auto simp: abs_le_iff)
qed

lemma round_ties_even_of_int: "round_ties_even (of_int n) = n"
  by (simp add: round_ties_even_def)

lemma round_ties_even_ge: "of_int n \<le> y \<Longrightarrow> n \<le> round_ties_even y"
proof -
  assume "of_int n \<le> y"
  then have "n \<le> \<lfloor>y\<rfloor>" by (simp add: le_floor_iff)
  then show ?thesis unfolding round_ties_even_def Let_def by auto
qed

lemma to_double_normal:
  assumes lo: "2 powi (- 1022) \<le> x" and hi: "x < 2 powi 1023"
  shows "\<exists>r. to_double x = Finite r \<and> \<bar>r - x\<bar> \<le> x / 2 ^ 53 \<and> 2 powi (binade x) \<le> r"
proof -
  have xpos: "0 < x" using pow2_pos [of "- 1022"] lo by linarith
  define k where "k = binade x"
  have klo: "2 powi k \<le> x" and khi: "x < 2 powi (k + 1)"
    unfolding k_def using binade_bounds [OF xpos] by auto
  have "(2::rat) powi (- 1022) < 2 powi (k + 1)" using lo khi by linarith
  then have k1: "- 1022 \<le> k" using pow2_less_cancel [of "- 1022" "k + 1"] by linarith
  have "(2::rat) powi k < 2 powi 1023" using klo hi by linarith
  then have k2: "k \<le> 1022" using pow2_less_cancel [of k 1023] by linarith
  define e where "e = k - 52"
  have e: "max (binade x - 52) (- 1074) = e" using k1 by (simp add: e_def k_def)
  have epos: "0 < (2::rat) powi e" by (rule pow2_pos)
  define y :: rat where "y = x / 2 powi e"
  have xy: "x = y * 2 powi e" using epos by (simp add: y_def)
  have s52: "52 + e = k" and s53: "53 + e = k + 1" by (simp_all add: e_def)
  have p52: "(2::rat) powi 52 * 2 powi e = 2 powi k"
    using pow2_add [of 52 e] unfolding s52 by (rule sym)
  have p53: "(2::rat) powi 53 * 2 powi e = 2 powi (k + 1)"
    using pow2_add [of 53 e] unfolding s53 by (rule sym)
  have ylo: "2 powi 52 \<le> y"
    using klo epos unfolding y_def p52 [symmetric] by (simp add: pos_le_divide_eq)
  have yhi: "y < 2 powi 53"
    using khi epos unfolding y_def p53 [symmetric] by (simp add: pos_divide_less_eq)
  define n where "n = round_ties_even y"
  have err: "\<bar>of_int n - y\<bar> \<le> 1 / 2" unfolding n_def by (rule round_ties_even_error)
  have i52: "(2::rat) powi 52 = of_int (2 ^ 52)" by (simp only: power_int_numeral of_int_power of_int_numeral)
  have i53: "(2::rat) powi 53 = of_int (2 ^ 53)" by (simp only: power_int_numeral of_int_power of_int_numeral)
  have nlo: "2 ^ 52 \<le> n"
    unfolding n_def using ylo unfolding i52 by (rule round_ties_even_ge)
  have "of_int n < (of_int (2 ^ 53) :: rat) + 1"
    using err yhi unfolding i53 by linarith
  then have "of_int n < (of_int (2 ^ 53 + 1) :: rat)" by simp
  then have "n < 2 ^ 53 + 1" by (simp only: of_int_less_iff)
  then have nhi: "n \<le> 2 ^ 53" by simp
  define r :: rat where "r = of_int n * 2 powi e"
  have rlo: "2 powi k \<le> r"
  proof -
    have "(2::rat) powi 52 \<le> of_int n" unfolding i52 using nlo by (simp only: of_int_le_iff)
    then have "(2::rat) powi 52 * 2 powi e \<le> of_int n * 2 powi e"
      using epos by (simp add: mult_right_mono)
    then show ?thesis unfolding p52 r_def .
  qed
  have rhi: "r \<le> 2 powi (k + 1)"
  proof -
    have "of_int n \<le> (2::rat) powi 53" unfolding i53 using nhi by (simp only: of_int_le_iff)
    then have "of_int n * 2 powi e \<le> (2::rat) powi 53 * 2 powi e"
      using epos by (simp add: mult_right_mono)
    then show ?thesis unfolding p53 r_def .
  qed
  have rpos: "0 < r" using rlo pow2_pos [of k] by linarith
  have "(2::rat) powi (k + 1) < 2 powi 1024" using k2 by (intro pow2_strict_mono) simp
  then have noov: "\<not> 2 powi 1024 \<le> \<bar>r\<bar>" using rhi rpos by simp
  have td: "to_double x = Finite r"
    using xpos noov unfolding to_double_def e Let_def r_def n_def y_def by simp
  have "r - x = (of_int n - y) * 2 powi e" unfolding r_def xy by (simp add: algebra_simps)
  then have "\<bar>r - x\<bar> = \<bar>of_int n - y\<bar> * 2 powi e"
    using epos by (simp add: abs_mult)
  also have "\<dots> \<le> (1 / 2) * 2 powi e" using err epos by (simp add: mult_right_mono)
  also have "\<dots> = 2 powi k / 2 ^ 53"
  proof -
    have "(2::rat) powi k = 2 powi 52 * 2 powi e" using p52 by simp
    also have "\<dots> = 2 ^ 52 * 2 powi e" by (simp only: power_int_numeral)
    finally show ?thesis by simp
  qed
  also have "\<dots> \<le> x / 2 ^ 53" using klo by (simp add: divide_right_mono)
  finally have "\<bar>r - x\<bar> \<le> x / 2 ^ 53" .
  with td rlo show ?thesis unfolding k_def by blast
qed

lemma to_double_of_int:
  assumes "1 \<le> n" and "n < 2 ^ 53"
  shows "to_double (of_int n) = Finite (of_int n)"
proof -
  define x :: rat where "x = of_int n"
  have xpos: "0 < x" using assms by (simp add: x_def)
  define k where "k = binade x"
  have klo: "2 powi k \<le> x" and khi: "x < 2 powi (k + 1)"
    unfolding k_def using binade_bounds [OF xpos] by auto
  have "(1::rat) \<le> x" using assms by (simp add: x_def)
  then have "(2::rat) powi 0 < 2 powi (k + 1)" using khi by simp
  then have k1: "0 \<le> k" using pow2_less_cancel [of 0 "k + 1"] by linarith
  have "x < of_int (2 ^ 53)" unfolding x_def using assms by (simp only: of_int_less_iff)
  then have "x < 2 powi 53" by (simp only: power_int_numeral of_int_power of_int_numeral)
  then have "(2::rat) powi k < 2 powi 53" using klo by linarith
  then have k2: "k \<le> 52" using pow2_less_cancel [of k 53] by linarith
  define m where "m = nat (52 - k)"
  have e: "max (binade x - 52) (- 1074) = - int m" using k1 k2 by (simp add: m_def k_def)
  have pm: "(2::rat) powi (- int m) = 1 / 2 ^ m"
    by (simp add: power_int_minus_divide)
  have y: "x / 2 powi (- int m) = of_int (n * 2 ^ m)"
    by (simp add: pm x_def)
  have r: "of_int (round_ties_even (x / 2 powi (- int m))) * (2::rat) powi (- int m) = x"
    unfolding y round_ties_even_of_int by (simp add: pm x_def)
  have "\<bar>x\<bar> < 2 powi 1024"
  proof -
    have "x < 2 powi 53" by fact
    also have "(2::rat) powi 53 < 2 powi 1024" by (intro pow2_strict_mono) simp
    finally show ?thesis using xpos by simp
  qed
  then show ?thesis
    using xpos unfolding to_double_def e Let_def r x_def [symmetric] by simp
qed

lemma binade_unique:
  assumes "2 powi k \<le> x" and "x < 2 powi (k + 1)"
  shows "binade x = k"
proof -
  have xpos: "0 < x" using pow2_pos [of k] assms(1) by linarith
  have "(2::rat) powi (binade x) < 2 powi (k + 1)"
    using binade_bounds(1) [OF xpos] assms(2) by linarith
  then have "binade x < k + 1" by (rule pow2_less_cancel)
  moreover have "(2::rat) powi k < 2 powi (binade x + 1)"
    using binade_bounds(2) [OF xpos] assms(1) by linarith
  then have "k < binade x + 1" by (rule pow2_less_cancel)
  ultimately show ?thesis by linarith
qed

lemma round_ties_even_nearest:
  assumes "\<bar>y - of_int n\<bar> < 1 / 2 \<or> (\<bar>y - of_int n\<bar> = 1 / 2 \<and> even n)"
  shows "round_ties_even y = n"
proof -
  define f where "f = \<lfloor>y\<rfloor>"
  have f: "of_int f \<le> y" "y < of_int f + 1" unfolding f_def by linarith+
  have "of_int (2 * n) < (of_int (2 * f + 3) :: rat)" "of_int (2 * f) < (of_int (2 * n + 2) :: rat)"
    using assms f by (auto simp: abs_if split: if_splits)
  then have "2 * n < 2 * f + 3" "2 * f < 2 * n + 2" by (simp_all only: of_int_less_iff)
  then consider "f = n" | "f = n - 1" by linarith
  then show ?thesis
  proof cases
    case 1
    have "y - of_int f \<le> 1 / 2" using assms unfolding 1 by (auto simp: abs_if split: if_splits)
    moreover have "even f" if "y - of_int f = 1 / 2"
      using assms that unfolding 1 by auto
    ultimately show ?thesis
      unfolding round_ties_even_def Let_def f_def [symmetric] using 1 by auto
  next
    case 2
    have y: "y - of_int f = y - of_int n + 1" unfolding 2 by simp
    have "1 / 2 \<le> y - of_int f"
      using assms f unfolding y by (auto simp: abs_if split: if_splits)
    moreover have "odd f" if "y - of_int f = 1 / 2"
    proof -
      have "\<bar>y - of_int n\<bar> = 1 / 2" using that unfolding y by simp
      then have "even n" using assms by auto
      then show ?thesis unfolding 2 by simp
    qed
    ultimately show ?thesis
      unfolding round_ties_even_def Let_def f_def [symmetric] using 2 by auto
  qed
qed

text \<open>
  Correct rounding, as a rule for evaluation: in the normal range, with \<open>u\<close> the unit in
  the last place of the binade of \<open>x\<close>, the double of \<open>x\<close> is the multiple \<open>n * u\<close>
  nearest to \<open>x\<close>, the even \<open>n\<close> on a tie.
\<close>

lemma to_double_eval:
  assumes "2 powi k \<le> x" and "x < 2 powi (k + 1)" and "- 1022 \<le> k" and "k \<le> 1022"
    and "\<bar>x - of_int n * 2 powi (k - 52)\<bar> < 2 powi (k - 52) / 2 \<or>
         (\<bar>x - of_int n * 2 powi (k - 52)\<bar> = 2 powi (k - 52) / 2 \<and> even n)"
  shows "to_double x = Finite (of_int n * 2 powi (k - 52))"
proof -
  have lo: "2 powi (- 1022) \<le> x"
    using pow2_mono [OF assms(3)] assms(1) by linarith
  have "(2::rat) powi (k + 1) \<le> 2 powi 1023" using assms(4) by (intro pow2_mono) simp
  then have hi: "x < 2 powi 1023" using assms(2) by linarith
  have xpos: "0 < x" using pow2_pos [of k] assms(1) by linarith
  have b: "binade x = k" using assms(1,2) by (rule binade_unique)
  have e: "max (k - 52) (- 1074) = k - 52" using assms(3) by simp
  define u :: rat where "u = 2 powi (k - 52)"
  have upos: "0 < u" unfolding u_def by (rule pow2_pos)
  have "x / u - of_int n = (x - of_int n * u) / u" using upos by (simp add: field_simps)
  then have "\<bar>x / u - of_int n\<bar> = \<bar>x - of_int n * u\<bar> / u" using upos by (simp add: abs_divide) 
  then have "\<bar>x / u - of_int n\<bar> < 1 / 2 \<or> (\<bar>x / u - of_int n\<bar> = 1 / 2 \<and> even n)"
    using assms(5) upos unfolding u_def [symmetric] by (auto simp: field_simps)
  then have n: "round_ties_even (x / u) = n" by (rule round_ties_even_nearest)
  from to_double_normal [OF lo hi] obtain r where r: "to_double x = Finite r" by blast
  then show ?thesis
    using xpos unfolding to_double_def b e Let_def u_def [symmetric] n
    by (simp split: if_splits)
qed

section \<open>Image resizing: the canvas size\<close>

lemma dimension_kept:
  assumes "1 \<le> v" and "v < 2 ^ 53"
  shows "js_max (Finite 1) (js_round (js_mul (Finite (of_int v)) (Finite 1))) = Finite (of_int v)"
proof -
  have "\<lfloor>(of_int v :: rat) + 1 / 2\<rfloor> = v" by linarith
  moreover have "max 1 (of_int v :: rat) = of_int v" using assms by simp
  ultimately show ?thesis
    using to_double_of_int [OF assms] by simp
qed

lemma small_bound: "(2::rat) powi (- 1022) \<le> 1 / 2 ^ 30"
proof -
  have "(2::rat) powi (- 1022) \<le> 2 powi (- 30)" by (intro pow2_mono) simp
  also have "\<dots> = 1 / 2 ^ 30" by (simp add: power_int_minus_divide)
  finally show ?thesis .
qed

lemma large_bound: "(1601::rat) < 2 powi 1023"
proof -
  have "(1601::rat) < 2 powi 11" by simp
  also have "(2::rat) powi 11 \<le> 2 powi 1023" by (intro pow2_mono) simp
  finally show ?thesis .
qed

lemma dimension_scaled:
  assumes v1: "1 \<le> v" and v2: "v < 2 ^ 32" and c: "1 / 2 ^ 30 \<le> c" and c1: "c \<le> 1"
    and b: "of_int v * c \<le> 1600 * (1 + 1 / 2 ^ 53)"
  shows "\<exists>d. js_max (Finite 1) (js_round (js_mul (Finite (of_int v)) (Finite c)))
             = Finite (of_int d)
           \<and> 1 \<le> d \<and> d \<le> 1600 \<and> d \<le> v"
proof -
  define V :: rat where "V = of_int v"
  have v: "1 \<le> V" using v1 by (simp add: V_def)
  have "V < of_int (2 ^ 32)" unfolding V_def using v2 by (simp only: of_int_less_iff)
  then have V2: "V < 2 ^ 32" by simp
  note b = b [folded V_def]
  have cpos: "0 < c" using c by (simp add: less_le_trans [OF _ c])
  have "c \<le> V * c" using v cpos by simp
  then have lo: "2 powi (- 1022) \<le> V * c" using small_bound c by linarith
  have "(1600::rat) * (1 + 1 / 2 ^ 53) < 1601" by simp
  then have hi: "V * c < 2 powi 1023" using b large_bound by linarith
  from to_double_normal [OF lo hi] obtain t
    where t: "to_double (V * c) = Finite t" and err: "\<bar>t - V * c\<bar> \<le> V * c / 2 ^ 53"
      and tlo: "2 powi (binade (V * c)) \<le> t" by blast
  have tpos: "0 < t" using tlo pow2_pos [of "binade (V * c)"] by linarith
  have "V * c / 2 ^ 53 \<le> 1600 * (1 + 1 / 2 ^ 53) / 2 ^ 53"
    using b by (simp add: divide_right_mono)
  then have "t \<le> 1600 * (1 + 1 / 2 ^ 53) + 1600 * (1 + 1 / 2 ^ 53) / 2 ^ 53"
    using err b by linarith
  also have "\<dots> < 1600 + 1 / 2" by simp
  finally have "t + 1 / 2 < of_int 1601" by simp
  then have f1: "\<lfloor>t + 1 / 2\<rfloor> < 1601" by (simp only: floor_less_iff)
  have f0: "0 \<le> \<lfloor>t + 1 / 2\<rfloor>" using tpos by simp
  have "V * c \<le> V" using v c1 by (simp add: mult_left_le)
  moreover have "V / 2 ^ 53 < 1 / 2" using V2 by simp
  moreover have "V * c / 2 ^ 53 \<le> V / 2 ^ 53"
    using \<open>V * c \<le> V\<close> by (simp add: divide_right_mono)
  ultimately have "t + 1 / 2 < V + 1" using err by linarith
  then have "t + 1 / 2 < of_int (v + 1)" by (simp add: V_def)
  then have f2: "\<lfloor>t + 1 / 2\<rfloor> < v + 1" by (simp only: floor_less_iff)
  define d where "d = max 1 \<lfloor>t + 1 / 2\<rfloor>"
  have "js_max (Finite 1) (js_round (js_mul (Finite V) (Finite c))) = Finite (of_int d)"
    by (simp add: t d_def)
  moreover have "1 \<le> d" "d \<le> 1600" "d \<le> v" using f1 f2 v1 by (simp_all add: d_def)
  ultimately show ?thesis unfolding V_def by blast
qed

lemma scale_bounds:
  assumes m1: "1 \<le> m" and m2: "m < 2 ^ 32"
  shows "\<exists>c. js_min (Finite 1) (js_div (Finite 1600) (Finite (of_int m))) = Finite c
           \<and> (m \<le> 1600 \<longrightarrow> c = 1) \<and> 1 / 2 ^ 30 \<le> c \<and> c \<le> 1
           \<and> of_int m * c \<le> 1600 * (1 + 1 / 2 ^ 53)"
proof -
  define M :: rat where "M = of_int m"
  have Mpos: "0 < M" and M1: "1 \<le> M" using m1 by (simp_all add: M_def)
  have "M < of_int (2 ^ 32)" unfolding M_def using m2 by (simp only: of_int_less_iff)
  then have M2: "M < 2 ^ 32" by simp
  define x where "x = 1600 / M"
  have Mx: "M * x = 1600" using Mpos by (simp add: x_def)
  have xlo: "1 / 2 ^ 22 \<le> x"
  proof -
    have "M \<le> 1600 * 2 ^ 22" using M2 by simp
    then show ?thesis unfolding x_def using Mpos by (simp add: field_simps)
  qed
  have xhi: "x \<le> 1600" unfolding x_def using M1 Mpos by (simp add: field_simps)
  have lo: "2 powi (- 1022) \<le> x" using small_bound xlo by simp
  have hi: "x < 2 powi 1023" using xhi large_bound by linarith
  from to_double_normal [OF lo hi] obtain s
    where s: "to_double x = Finite s" and err: "\<bar>s - x\<bar> \<le> x / 2 ^ 53"
      and slo: "2 powi (binade x) \<le> s" by blast
  have xpos: "0 < x" using xlo by (simp add: less_le_trans [OF _ xlo])
  have sc: "js_min (Finite 1) (js_div (Finite 1600) (Finite (of_int m))) = Finite (min 1 s)"
    using Mpos s by (simp add: M_def [symmetric] x_def [symmetric])
  have one: "1 \<le> s" if "m \<le> 1600"
  proof -
    have "M \<le> 1600" using that by (simp add: M_def)
    then have "1 \<le> x" unfolding x_def using Mpos by (simp add: field_simps)
    then have "(2::rat) powi 0 < 2 powi (binade x + 1)"
      using binade_bounds(2) [OF xpos] by simp
    then have "0 \<le> binade x" using pow2_less_cancel [of 0 "binade x + 1"] by linarith
    then have "(2::rat) powi 0 \<le> 2 powi (binade x)" by (rule pow2_mono)
    then show ?thesis using slo by simp
  qed
  have small: "1 / 2 ^ 30 \<le> min 1 s"
  proof -
    have "x / 2 ^ 53 \<le> x / 2" using xpos by (simp add: field_simps)
    then have "x / 2 \<le> s" using err by linarith
    moreover have "(1::rat) / 2 ^ 30 \<le> (1 / 2 ^ 22) / 2" by simp
    moreover have "(1 / 2 ^ 22) / 2 \<le> x / 2" using xlo by simp
    ultimately have "1 / 2 ^ 30 \<le> s" by linarith
    then show ?thesis by simp
  qed
  have prod: "M * min 1 s \<le> 1600 * (1 + 1 / 2 ^ 53)"
  proof -
    have "s \<le> x + x / 2 ^ 53" using err by linarith
    then have "M * s \<le> M * (x + x / 2 ^ 53)" using Mpos by (simp add: mult_left_mono)
    also have "\<dots> = M * x + M * x / 2 ^ 53" by (simp add: algebra_simps)
    also have "\<dots> = 1600 * (1 + 1 / 2 ^ 53)" unfolding Mx by simp
    finally have "M * s \<le> 1600 * (1 + 1 / 2 ^ 53)" .
    moreover have "M * min 1 s \<le> M * s" using Mpos by (simp add: mult_left_mono)
    ultimately show ?thesis by linarith
  qed
  show ?thesis
    using sc one small prod unfolding M_def by (intro exI [of _ "min 1 s"]) auto
qed

lemma optimized_dimensions_range:
  assumes "1 \<le> unat iw" and "1 \<le> unat ih"
  shows "\<exists>ow oh. optimized_dimensions iw ih = (Finite (of_int ow), Finite (of_int oh))
           \<and> 1 \<le> ow \<and> 1 \<le> oh \<and> max ow oh \<le> 1600
           \<and> ow \<le> int (unat iw) \<and> oh \<le> int (unat ih)
           \<and> (max (unat iw) (unat ih) \<le> 1600 \<longrightarrow> ow = int (unat iw) \<and> oh = int (unat ih))"
proof -
  define w where "w = int (unat iw)"
  define h where "h = int (unat ih)"
  define m where "m = max w h"
  have "unat iw < 4294967296" "unat ih < 4294967296"
    using unsigned_less [of iw, where ?'a = nat] unsigned_less [of ih, where ?'a = nat] by simp_all
  then have "1 \<le> w \<and> w < 4294967296 \<and> 1 \<le> h \<and> h < 4294967296"
    using assms unfolding w_def h_def by linarith
  then have w: "1 \<le> w" "w < 2 ^ 32" and h: "1 \<le> h" "h < 2 ^ 32"
    by simp_all
  have m: "1 \<le> m" "m < 2 ^ 32" "w \<le> m" "h \<le> m" using w h by (simp_all add: m_def)
  have nw: "number_of_word iw = Finite (of_int w)" and nh: "number_of_word ih = Finite (of_int h)"
    by (simp_all add: number_of_word_def w_def h_def)
  have mx: "js_max (number_of_word iw) (number_of_word ih) = Finite (of_int m)"
    by (simp add: nw nh m_def)
  from scale_bounds [OF m(1,2)] obtain c
    where sc: "optimized_scale iw ih = Finite c" and keep: "m \<le> 1600 \<longrightarrow> c = 1"
      and clo: "1 / 2 ^ 30 \<le> c" and chi: "c \<le> 1"
      and prod: "of_int m * c \<le> 1600 * (1 + 1 / 2 ^ 53)"
    unfolding optimized_scale_def maxDimension_def mx by blast
  have cpos: "0 < c" using clo by (simp add: less_le_trans [OF _ clo])
  have dims: "optimized_dimensions iw ih =
      (js_max (Finite 1) (js_round (js_mul (Finite (of_int w)) (Finite c))),
       js_max (Finite 1) (js_round (js_mul (Finite (of_int h)) (Finite c))))"
    by (simp add: optimized_dimensions_def Let_def sc nw nh)
  show ?thesis
  proof (cases "m \<le> 1600")
    case True
    then have c1: "c = 1" using keep by simp
    have "w < 2 ^ 53" "h < 2 ^ 53" using w h by simp_all
    then have "optimized_dimensions iw ih = (Finite (of_int w), Finite (of_int h))"
      unfolding dims c1 using dimension_kept w(1) h(1) by simp
    moreover have "max w h \<le> 1600" using True by (simp add: m_def)
    ultimately show ?thesis
      using w(1) h(1) by - (rule exI [of _ w], rule exI [of _ h], simp add: w_def h_def)
  next
    case False
    have pw: "of_int w * c \<le> 1600 * (1 + 1 / 2 ^ 53)"
    proof -
      have "(of_int w :: rat) \<le> of_int m" using m(3) by (simp only: of_int_le_iff)
      then have "of_int w * c \<le> of_int m * c" using cpos by (simp add: mult_right_mono)
      then show ?thesis using prod by linarith
    qed
    have ph: "of_int h * c \<le> 1600 * (1 + 1 / 2 ^ 53)"
    proof -
      have "(of_int h :: rat) \<le> of_int m" using m(4) by (simp only: of_int_le_iff)
      then have "of_int h * c \<le> of_int m * c" using cpos by (simp add: mult_right_mono)
      then show ?thesis using prod by linarith
    qed
    from dimension_scaled [OF w clo chi pw] obtain ow
      where ow: "js_max (Finite 1) (js_round (js_mul (Finite (of_int w)) (Finite c))) = Finite (of_int ow)"
        "1 \<le> ow" "ow \<le> 1600" "ow \<le> w" by blast
    from dimension_scaled [OF h clo chi ph] obtain oh
      where oh: "js_max (Finite 1) (js_round (js_mul (Finite (of_int h)) (Finite c))) = Finite (of_int oh)"
        "1 \<le> oh" "oh \<le> 1600" "oh \<le> h" by blast
    have "\<not> max (unat iw) (unat ih) \<le> 1600"
      using False unfolding m_def w_def h_def by linarith
    then show ?thesis
      unfolding dims ow(1) oh(1) using ow(2,3,4) oh(2,3,4)
      by - (rule exI [of _ ow], rule exI [of _ oh], auto simp: w_def h_def)
  qed
qed

text \<open>
  C5. For every image of width and height at least 1, with \<open>maxDimension = 1600\<close>, the
  resize step \<open>fileToOptimizedDataUrl\<close> computes (in binary64 arithmetic) \<open>scale =
  min(1, maxDimension / max(width, height))\<close> and draws and encodes a canvas of size
  \<open>max(1, round(width * scale))\<close> by \<open>max(1, round(height * scale))\<close>. Both sides of
  the canvas are whole numbers between 1 and 1600, neither is larger than the image's
  own side (no upscaling), and when neither side of the image exceeds 1600 they are the
  image's own width and height.
\<close>

theorem optimized_dimensions_bounds:
  assumes "env_readFile env f = Some original"
    and "env_loadImage env original = Some (iw, ih)"
    and "env_hasContext env"
    and "1 \<le> unat iw" and "1 \<le> unat ih"
  shows "optimized_scale iw ih
           = js_min (Finite 1)
               (js_div (Finite 1600) (js_max (number_of_word iw) (number_of_word ih))) \<and>
         optimized_dimensions iw ih
           = (js_max (Finite 1) (js_round (js_mul (number_of_word iw) (optimized_scale iw ih))),
              js_max (Finite 1) (js_round (js_mul (number_of_word ih) (optimized_scale iw ih)))) \<and>
         (\<exists>ow oh.
            fileToOptimizedDataUrl env f
              = Inr (env_toDataURL env original
                      \<lparr> canvas_width = Finite (of_int ow), canvas_height = Finite (of_int oh) \<rparr>)
            \<and> optimized_dimensions iw ih = (Finite (of_int ow), Finite (of_int oh))
            \<and> 1 \<le> ow \<and> 1 \<le> oh \<and> max ow oh \<le> 1600
            \<and> ow \<le> int (unat iw) \<and> oh \<le> int (unat ih)
            \<and> (max (unat iw) (unat ih) \<le> 1600 \<longrightarrow> ow = int (unat iw) \<and> oh = int (unat ih)))"
proof -
  from optimized_dimensions_range [OF assms(4,5)] obtain ow oh
    where d: "optimized_dimensions iw ih = (Finite (of_int ow), Finite (of_int oh))"
      and r: "1 \<le> ow" "1 \<le> oh" "max ow oh \<le> 1600" "ow \<le> int (unat iw)" "oh \<le> int (unat ih)"
        "max (unat iw) (unat ih) \<le> 1600 \<longrightarrow> ow = int (unat iw) \<and> oh = int (unat ih)"
    by blast
  have "fileToOptimizedDataUrl env f
      = Inr (env_toDataURL env original
              \<lparr> canvas_width = Finite (of_int ow), canvas_height = Finite (of_int oh) \<rparr>)"
    using assms(1-3) by (simp add: fileToOptimizedDataUrl_def d)
  with d r have "\<exists>ow oh.
            fileToOptimizedDataUrl env f
              = Inr (env_toDataURL env original
                      \<lparr> canvas_width = Finite (of_int ow), canvas_height = Finite (of_int oh) \<rparr>)
            \<and> optimized_dimensions iw ih = (Finite (of_int ow), Finite (of_int oh))
            \<and> 1 \<le> ow \<and> 1 \<le> oh \<and> max ow oh \<le> 1600
            \<and> ow \<le> int (unat iw) \<and> oh \<le> int (unat ih)
            \<and> (max (unat iw) (unat ih) \<le> 1600 \<longrightarrow> ow = int (unat iw) \<and> oh = int (unat ih))"
    by blast
  then show ?thesis
    by (simp add: optimized_scale_def maxDimension_def optimized_dimensions_def Let_def)
qed

lemma example_dimensions: "optimized_dimensions 3000 2000 = (Finite 1600, Finite 1067)"
proof -
  have n: "number_of_word 3000 = Finite 3000" "number_of_word 2000 = Finite 2000"
    by (simp_all add: number_of_word_def)
  have s: "js_div (Finite 1600) (Finite 3000) = Finite (4803839602528529 / 9007199254740992)"
    using to_double_eval [of "- 1" "1600 / 3000" 4803839602528529]
    by (simp add: power_int_minus_divide)
  have w: "js_mul (Finite 3000) (Finite (4803839602528529 / 9007199254740992)) = Finite 1600"
    using to_double_eval [of 10 "3000 * (4803839602528529 / 9007199254740992)" 7036874417766400]
    by (simp add: power_int_minus_divide)
  have h: "js_mul (Finite 2000) (Finite (4803839602528529 / 9007199254740992))
      = Finite (4691249611844267 / 4398046511104)"
    using to_double_eval [of 10 "2000 * (4803839602528529 / 9007199254740992)" 4691249611844267]
    by (simp add: power_int_minus_divide)
  have sc: "optimized_scale 3000 2000 = Finite (4803839602528529 / 9007199254740992)"
    unfolding optimized_scale_def maxDimension_def n by (simp add: s del: js_div.simps)
  show ?thesis
    unfolding optimized_dimensions_def Let_def sc n w h by (simp add: floor_eq_iff)
qed

theorem optimized_dimensions_bounds_witness:
  "env_readFile (encoding_environment (3000, 2000)) example_photo
     = Some ''data:image/heic;base64,AAAA'' \<and>
   env_loadImage (encoding_environment (3000, 2000)) ''data:image/heic;base64,AAAA''
     = Some (3000, 2000) \<and>
   env_hasContext (encoding_environment (3000, 2000)) \<and>
   1 \<le> unat (3000 :: 32 word) \<and> 1 \<le> unat (2000 :: 32 word) \<and>
   optimized_dimensions 3000 2000 = (Finite 1600, Finite 1067) \<and>
   fileToOptimizedDataUrl (encoding_environment (3000, 2000)) example_photo
     = Inr ''data:image/jpeg;base64,1600x1067'' \<and>
   1 \<le> unat (800 :: 32 word) \<and> 1 \<le> unat (600 :: 32 word) \<and>
   max (unat (800 :: 32 word)) (unat (600 :: 32 word)) \<le> 1600 \<and>
   optimized_dimensions 800 600 = (Finite 800, Finite 600) \<and>
   fileToOptimizedDataUrl (encoding_environment (800, 600)) example_photo
     = Inr ''data:image/jpeg;base64,800x600''"
proof -
  have env: "env_readFile (encoding_environment s) example_photo = Some ''data:image/heic;base64,AAAA''"
    "env_loadImage (encoding_environment s) ''data:image/heic;base64,AAAA'' = Some s"
    "env_hasContext (encoding_environment s)"
    "env_toDataURL (encoding_environment s) original canvas = size_encoder original canvas"
    for s original canvas
    by (simp_all add: encoding_environment_def example_environment_def)
  have big: "1 \<le> unat (3000 :: 32 word)" "1 \<le> unat (2000 :: 32 word)"
    and small: "1 \<le> unat (800 :: 32 word)" "1 \<le> unat (600 :: 32 word)"
    by simp_all
  from optimized_dimensions_bounds [OF env(1,2,3) big] obtain ow oh
    where a: "fileToOptimizedDataUrl (encoding_environment (3000, 2000)) example_photo
        = Inr (size_encoder ''data:image/heic;base64,AAAA''
                \<lparr> canvas_width = Finite (of_int ow), canvas_height = Finite (of_int oh) \<rparr>)"
      "optimized_dimensions 3000 2000 = (Finite (of_int ow), Finite (of_int oh))"
    unfolding env(4) by blast
  from optimized_dimensions_bounds [OF env(1,2,3) small] obtain ow' oh'
    where b: "fileToOptimizedDataUrl (encoding_environment (800, 600)) example_photo
        = Inr (size_encoder ''data:image/heic;base64,AAAA''
                \<lparr> canvas_width = Finite (of_int ow'), canvas_height = Finite (of_int oh') \<rparr>)"
      "optimized_dimensions 800 600 = (Finite (of_int ow'), Finite (of_int oh'))"
      "max (unat (800 :: 32 word)) (unat (600 :: 32 word)) \<le> 1600
         \<longrightarrow> ow' = int (unat (800 :: 32 word)) \<and> oh' = int (unat (600 :: 32 word))"
    unfolding env(4) by blast
  have ow: "Finite (of_int ow) = Finite 1600" "Finite (of_int oh) = Finite 1067"
    using a(2) example_dimensions by simp_all
  have ow': "ow' = 800" "oh' = 600" using b(3) by simp_all
  show ?thesis
    using a(1) b(1,2) unfolding ow ow' using env(1,2,3) example_dimensions
    by (simp add: size_encoder_def)
qed

section \<open>Report totals\<close>

lemma totals_step_fields:
  "totalIn (totals_step acc item)
     = (if entry_type item = IN then js_add (totalIn acc) (entry_amount item) else totalIn acc)"
  "totalOut (totals_step acc item)
     = (if entry_type item = IN then totalOut acc else js_add (totalOut acc) (entry_amount item))"
  by (simp_all add: totals_step_def)

lemma foldl_totals_step:
  "foldl totals_step acc items =
     \<lparr> totalIn = foldl js_add (totalIn acc) (map entry_amount (filter (\<lambda>i. entry_type i = IN) items)),
       totalOut = foldl js_add (totalOut acc)
         (map entry_amount (filter (\<lambda>i. entry_type i \<noteq> IN) items)) \<rparr>"
proof (induction items arbitrary: acc)
  case Nil
  then show ?case by simp
next
  case (Cons item items)
  show ?case
    unfolding foldl_Cons Cons.IH by (simp add: totals_step_fields)
qed

lemma totals_fold:
  "totals items =
     \<lparr> totalIn = foldl js_add (Finite 0) (map entry_amount (filter (\<lambda>i. entry_type i = IN) items)),
       totalOut = foldl js_add (Finite 0)
         (map entry_amount (filter (\<lambda>i. entry_type i \<noteq> IN) items)) \<rparr>"
  unfolding totals_def foldl_totals_step by simp

lemma to_double_of_nat:
  assumes "n < 2 ^ 53"
  shows "to_double (of_nat n) = Finite (of_nat n)"
proof (cases "n = 0")
  case True
  then show ?thesis by (simp add: to_double_def)
next
  case False
  have "int n < 2 ^ 53" using assms by (simp only: of_nat_less_numeral_power_cancel_iff)
  moreover have "1 \<le> int n" using False by simp
  ultimately have "to_double (of_int (int n)) = Finite (of_int (int n))"
    by (intro to_double_of_int)
  then show ?thesis by simp
qed

lemma foldl_whole_amounts:
  assumes "\<forall>i\<in>set xs. entry_amount i = Finite (of_nat (a i))"
    and "s + sum_list (map a xs) < 2 ^ 53"
  shows "foldl js_add (Finite (of_nat s)) (map entry_amount xs)
           = Finite (of_nat (s + sum_list (map a xs)))"
  using assms
proof (induction xs arbitrary: s)
  case Nil
  then show ?case by simp
next
  case (Cons x xs)
  have x: "entry_amount x = Finite (of_nat (a x))" using Cons.prems(1) by simp
  have small: "s + a x < 2 ^ 53" using Cons.prems(2) by simp
  have step: "js_add (Finite (of_nat s)) (entry_amount x) = Finite (of_nat (s + a x))"
    unfolding x using to_double_of_nat [OF small] by simp
  have "foldl js_add (Finite (of_nat (s + a x))) (map entry_amount xs)
          = Finite (of_nat ((s + a x) + sum_list (map a xs)))"
    using Cons.prems by (intro Cons.IH) (simp_all add: add.assoc)
  then show ?case by (simp add: step add.assoc)
qed

lemma sum_list_filter_le: "sum_list (map a (filter P xs)) \<le> sum_list (map (a :: 'b \<Rightarrow> nat) xs)"
  by (induction xs) simp_all

lemma totals_whole_amounts:
  assumes "\<forall>i\<in>set items. entry_amount i = Finite (of_nat (a i))"
    and "sum_list (map a items) < 2 ^ 53"
  shows "totals items =
     \<lparr> totalIn = Finite (of_nat (sum_list (map a (filter (\<lambda>i. entry_type i = IN) items)))),
       totalOut = Finite (of_nat (sum_list (map a (filter (\<lambda>i. entry_type i \<noteq> IN) items)))) \<rparr>"
proof -
  have "foldl js_add (Finite (of_nat 0)) (map entry_amount (filter P items))
          = Finite (of_nat (0 + sum_list (map a (filter P items))))" for P
    using assms sum_list_filter_le [of a P items] by (intro foldl_whole_amounts) auto
  then show ?thesis unfolding totals_fold by simp
qed

lemma sum_list_filter_mset:
  assumes "mset xs = mset ys"
  shows "sum_list (map (a :: 'b \<Rightarrow> nat) (filter P xs)) = sum_list (map a (filter P ys))"
proof -
  have "mset (filter P xs) = mset (filter P ys)"
    using assms by simp
  then have "image_mset a (mset (filter P xs)) = image_mset a (mset (filter P ys))"
    by (rule arg_cong)
  then have "mset (map a (filter P xs)) = mset (map a (filter P ys))"
    by (simp only: mset_map)
  then show ?thesis by (metis sum_mset_sum_list)
qed

lemma tenth: "to_double (1 / 10) = Finite (3602879701896397 / 36028797018963968)"
  using to_double_eval [of "- 4" "1 / 10" 7205759403792794]
  by (simp add: power_int_minus_divide)

lemma fifth: "to_double (1 / 5) = Finite (3602879701896397 / 18014398509481984)"
  using to_double_eval [of "- 3" "1 / 5" 7205759403792794]
  by (simp add: power_int_minus_divide)

lemma three_tenths: "to_double (3 / 10) = Finite (5404319552844595 / 18014398509481984)"
  using to_double_eval [of "- 2" "3 / 10" 5404319552844595]
  by (simp add: power_int_minus_divide)

lemma sum_in_order:
  "js_add (Finite 0) (Finite (3602879701896397 / 36028797018963968))
     = Finite (3602879701896397 / 36028797018963968)"
  "js_add (Finite (3602879701896397 / 36028797018963968))
          (Finite (3602879701896397 / 18014398509481984))
     = Finite (1351079888211149 / 4503599627370496)"
  "js_add (Finite (1351079888211149 / 4503599627370496))
          (Finite (5404319552844595 / 18014398509481984))
     = Finite (1351079888211149 / 2251799813685248)"
  using to_double_eval [of "- 4" "3602879701896397 / 36028797018963968" 7205759403792794]
    to_double_eval [of "- 2" "3602879701896397 / 36028797018963968
                              + 3602879701896397 / 18014398509481984" 5404319552844596]
    to_double_eval [of "- 1" "1351079888211149 / 4503599627370496
                              + 5404319552844595 / 18014398509481984" 5404319552844596]
  by (simp_all add: power_int_minus_divide)

lemma sum_reversed:
  "js_add (Finite 0) (Finite (5404319552844595 / 18014398509481984))
     = Finite (5404319552844595 / 18014398509481984)"
  "js_add (Finite (5404319552844595 / 18014398509481984))
          (Finite (3602879701896397 / 18014398509481984))
     = Finite (1 / 2)"
  "js_add (Finite (1 / 2)) (Finite (3602879701896397 / 36028797018963968))
     = Finite (5404319552844595 / 9007199254740992)"
  using to_double_eval [of "- 2" "5404319552844595 / 18014398509481984" 5404319552844595]
    to_double_eval [of "- 1" "5404319552844595 / 18014398509481984
                              + 3602879701896397 / 18014398509481984" 4503599627370496]
    to_double_eval [of "- 1" "1 / 2 + 3602879701896397 / 36028797018963968" 5404319552844595]
  by (simp_all add: power_int_minus_divide)

text \<open>
  C7, as stated, fails: the amounts are binary64 numbers and their addition rounds, so the
  order of the entries matters. Three IN entries of 0.1, 0.2 and 0.3 total
  0.6000000000000001 in this order and 0.6 in the reverse order.
\<close>

theorem totals_permutation_counterexample:
  "mset (rev example_items) = mset example_items \<and>
   totalIn (totals example_items) = Finite (1351079888211149 / 2251799813685248) \<and>
   totalIn (totals (rev example_items)) = Finite (5404319552844595 / 9007199254740992) \<and>
   totalIn (totals (rev example_items)) \<noteq> totalIn (totals example_items) \<and>
   net (rev example_items) \<noteq> net example_items"
proof -
  have a: "totals example_items
      = \<lparr> totalIn = Finite (1351079888211149 / 2251799813685248), totalOut = Finite 0 \<rparr>"
    by (simp add: totals_def totals_step_def example_items_def amount_entry_def
        tenth fifth three_tenths sum_in_order del: js_add.simps)
  have b: "totals (rev example_items)
      = \<lparr> totalIn = Finite (5404319552844595 / 9007199254740992), totalOut = Finite 0 \<rparr>"
    by (simp add: totals_def totals_step_def example_items_def amount_entry_def
        tenth fifth three_tenths sum_reversed del: js_add.simps)
  have c: "js_sub (Finite (1351079888211149 / 2251799813685248)) (Finite 0)
      = Finite (1351079888211149 / 2251799813685248)"
    using to_double_eval [of "- 1" "1351079888211149 / 2251799813685248" 5404319552844596]
    by (simp add: power_int_minus_divide)
  have d: "js_sub (Finite (5404319552844595 / 9007199254740992)) (Finite 0)
      = Finite (5404319552844595 / 9007199254740992)"
    using to_double_eval [of "- 1" "5404319552844595 / 9007199254740992" 5404319552844595]
    by (simp add: power_int_minus_divide)
  show ?thesis
    unfolding net_def a b by (simp add: c d del: js_sub.simps)
qed

text \<open>
  C7, amended. The totals are one left-to-right fold over the result set: \<open>totalIn\<close> is
  the binary64 sum, from 0 and in the order of the list, of the amounts of the entries
  of type IN, \<open>totalOut\<close> the same for the remaining entries, and \<open>net\<close> is
  \<open>totalIn - totalOut\<close>. A reordering that keeps the IN entries in their order and the
  other entries in theirs leaves \<open>totalIn\<close>, \<open>totalOut\<close> and \<open>net\<close> unchanged; so does
  every permutation when the amounts are whole numbers with a sum below \<open>2^53\<close>, where
  every addition is exact.
\<close>

theorem totals_order:
  "totals items =
     \<lparr> totalIn = foldl js_add (Finite 0) (map entry_amount (filter (\<lambda>i. entry_type i = IN) items)),
       totalOut = foldl js_add (Finite 0)
         (map entry_amount (filter (\<lambda>i. entry_type i \<noteq> IN) items)) \<rparr> \<and>
   net items = js_sub (totalIn (totals items)) (totalOut (totals items)) \<and>
   (filter (\<lambda>i. entry_type i = IN) items' = filter (\<lambda>i. entry_type i = IN) items \<and>
    filter (\<lambda>i. entry_type i \<noteq> IN) items' = filter (\<lambda>i. entry_type i \<noteq> IN) items \<longrightarrow>
      totals items' = totals items \<and> net items' = net items) \<and>
   (mset items' = mset items \<and>
    (\<forall>i\<in>set items. entry_amount i = Finite (of_nat (a i))) \<and>
    sum_list (map a items) < 2 ^ 53 \<longrightarrow>
      totals items' = totals items \<and> net items' = net items)"
proof (intro conjI impI)
  show "totals items =
     \<lparr> totalIn = foldl js_add (Finite 0) (map entry_amount (filter (\<lambda>i. entry_type i = IN) items)),
       totalOut = foldl js_add (Finite 0)
         (map entry_amount (filter (\<lambda>i. entry_type i \<noteq> IN) items)) \<rparr>"
    by (rule totals_fold)
  show "net items = js_sub (totalIn (totals items)) (totalOut (totals items))"
    by (simp add: net_def)
next
  assume "filter (\<lambda>i. entry_type i = IN) items' = filter (\<lambda>i. entry_type i = IN) items \<and>
    filter (\<lambda>i. entry_type i \<noteq> IN) items' = filter (\<lambda>i. entry_type i \<noteq> IN) items"
  then have t: "totals items' = totals items" by (simp add: totals_fold)
  then show "totals items' = totals items" and "net items' = net items"
    by (simp_all add: net_def)
next
  assume h: "mset items' = mset items \<and>
    (\<forall>i\<in>set items. entry_amount i = Finite (of_nat (a i))) \<and>
    sum_list (map a items) < 2 ^ 53"
  then have m: "mset items' = mset items" by simp
  have s: "set items' = set items" using m by (rule mset_eq_setD)
  have sum: "sum_list (map a items') = sum_list (map a items)"
    using m by (metis mset_map sum_mset_sum_list)
  have whole: "\<forall>i\<in>set items. entry_amount i = Finite (of_nat (a i))"
    and small: "sum_list (map a items) < 2 ^ 53" using h by simp_all
  have whole': "\<forall>i\<in>set items'. entry_amount i = Finite (of_nat (a i))"
    using whole unfolding s .
  have small': "sum_list (map a items') < 2 ^ 53" using small unfolding sum .
  have "totals items' = totals items"
    unfolding totals_whole_amounts [OF whole small] totals_whole_amounts [OF whole' small']
    using sum_list_filter_mset [OF m, of a] by simp
  then show "totals items' = totals items" and "net items' = net items"
    by (simp_all add: net_def)
qed

theorem totals_order_witness:
  "filter (\<lambda>i. entry_type i = IN) (rev (take 2 whole_items))
     = filter (\<lambda>i. entry_type i = IN) (take 2 whole_items) \<and>
   filter (\<lambda>i. entry_type i \<noteq> IN) (rev (take 2 whole_items))
     = filter (\<lambda>i. entry_type i \<noteq> IN) (take 2 whole_items) \<and>
   totals (rev (take 2 whole_items)) = totals (take 2 whole_items) \<and>
   mset (rev whole_items) = mset whole_items \<and>
   map entry_amount whole_items = map (\<lambda>i. Finite (of_nat (whole_amount i))) whole_items \<and>
   sum_list (map whole_amount whole_items) < 2 ^ 53 \<and>
   totals (rev whole_items) = totals whole_items \<and>
   net (rev whole_items) = net whole_items"
  using totals_order [of "take 2 whole_items" "rev (take 2 whole_items)" whole_amount]
    totals_order [of whole_items "rev whole_items" whole_amount]
  by (simp add: whole_items_def amount_entry_def whole_amount_def)

end
